theory Spec2Isabelle
  imports Complex_Main "HOL-Library.AList" "HOL-Library.Sublist" "HOL-Library.Multiset"
begin

text \<open>
  An embedding of \<open>server.js\<close>: the question supply (\<open>selectQuestions\<close>,
  \<open>selectFromQuestionPool\<close>) and the handlers of the game session engine, as
  functions on an explicit server state that return the new state and the messages
  emitted. A handler is run to its end before the next event is handled; what a
  handler takes from outside (the answers of the generative service, the results of
  the random sorts and of the random index) is an argument of the handler run.
\<close>

section \<open>JavaScript values, objects and sets\<close>

text \<open>
  Player names and question texts are strings. A field that holds a name or is still
  \<open>null\<close> / \<open>undefined\<close> is a \<open>jsval\<close>; used as a property key it is coerced to a
  string, as JavaScript does.
\<close>

datatype jsval = Null | Undefined | Str string

fun propKey :: "jsval \<Rightarrow> string" where
  "propKey Null = ''null''"
| "propKey Undefined = ''undefined''"
| "propKey (Str s) = s"

text \<open>
  A plain object used as a dictionary is an association list in insertion order:
  \<open>o[k]\<close> is \<open>map_of\<close>, \<open>o[k] = v\<close> is \<open>AList.update\<close> (in place when the key exists,
  appended otherwise), \<open>delete o[k]\<close> is \<open>AList.delete\<close>, \<open>Object.keys(o)\<close> is
  \<open>map fst\<close>.
\<close>

type_synonym 'v obj = "(string \<times> 'v) list"

text \<open>
  The association list holds the object's own properties. The objects of the server
  are made by object literals, so they also inherit the properties of
  \<open>Object.prototype\<close>: a read \<open>o[k]\<close> of a name that is no own property but is one of
  the names below finds the inherited value, a function (for \<open>__proto__\<close> the prototype
  object itself), which is truthy and is not a room.
\<close>

definition objectPrototypeKeys :: "string list" where
  "objectPrototypeKeys =
    [''constructor'', ''__defineGetter__'', ''__defineSetter__'', ''hasOwnProperty'',
     ''__lookupGetter__'', ''__lookupSetter__'', ''isPrototypeOf'', ''propertyIsEnumerable'',
     ''toString'', ''valueOf'', ''__proto__'', ''toLocaleString'']"

datatype 'v lookup = Own 'v | Inherited | Missing

definition lookupProp :: "'v obj \<Rightarrow> string \<Rightarrow> 'v lookup" where
  "lookupProp ob k =
    (case map_of ob k of
       Some v \<Rightarrow> Own v
     | None \<Rightarrow> if k \<in> set objectPrototypeKeys then Inherited else Missing)"

text \<open>
  \<open>o[k] = v\<close> for a number \<open>v\<close>. The assignment goes to an own property when there is
  one, and otherwise creates it, except for \<open>__proto__\<close>: with no own property of that
  name the assignment reaches the setter inherited from \<open>Object.prototype\<close>, which
  ignores a value that is neither an object nor \<open>null\<close>, so that no property is created.
\<close>

definition assignNumber :: "string \<Rightarrow> int \<Rightarrow> int obj \<Rightarrow> int obj" where
  "assignNumber k v ob =
    (if k = ''__proto__'' then
       (case map_of ob k of None \<Rightarrow> ob | Some old \<Rightarrow> AList.update k v ob)
     else AList.update k v ob)"

text \<open>A \<open>Set\<close> is a duplicate-free list in insertion order; \<open>add\<close> ignores a member.\<close>

definition setAdd :: "'a \<Rightarrow> 'a list \<Rightarrow> 'a list" where
  "setAdd x xs = (if x \<in> set xs then xs else xs @ [x])"

definition addAll :: "'a list \<Rightarrow> 'a list \<Rightarrow> 'a list" where
  "addAll qs xs = foldl (\<lambda>acc q. setAdd q acc) xs qs"

text \<open>\<open>xs.indexOf(t)\<close>: the first index holding \<open>t\<close>, or \<open>-1\<close>.\<close>

fun indexFrom :: "int \<Rightarrow> string list \<Rightarrow> jsval \<Rightarrow> int" where
  "indexFrom i [] t = -1"
| "indexFrom i (x # xs) t = (if Str x = t then i else indexFrom (i + 1) xs t)"

definition indexOf :: "string list \<Rightarrow> jsval \<Rightarrow> int" where
  "indexOf xs t = indexFrom 0 xs t"

section \<open>Rooms, the server state and what is emitted\<close>

text \<open>
  The server only ever writes the first four phases and, in the disconnect handler,
  the string \<open>'joining'\<close>.
\<close>

datatype phase = Waiting | Ranking | Guessing | Reveal | Joining

record game =
  players :: "string list"
  points :: "int obj"
  state :: phase
  owner :: string
  usedQuestions :: "string list"
  questionAssignments :: "string obj"
  rankings :: "string list obj"
  currentRanker :: jsval
  currentTarget :: jsval
  currentQuestion :: "string option"
  currentGuesses :: "int obj"
  actualPosition :: "int option"
  currentFullRanking :: "string list option"
  rankers :: "string list"
  currentRevealIndex :: nat
  noMoreQuestions :: bool

text \<open>
  A \<open>gameState\<close> message carries a snapshot of the room and the recipient's
  \<open>myQuestion\<close> when the handler adds one. \<open>ToSocket\<close> is \<open>socket.emit\<close> (the calling
  connection only), \<open>ToRoom\<close> is \<open>io.to(gameId).emit\<close>, \<open>ToPlayer\<close> is the emit to the
  socket found for a player of the room.
\<close>

text \<open>
  Left out of a snapshot: the \<open>gameId\<close> that \<open>createGame\<close> adds and the constant
  flags \<open>hasSubmittedGuess\<close> and \<open>hasSubmittedRanking\<close>. Which sockets are in a room
  is the transport's state and is not modelled.
\<close>

datatype msg = GameState game "string option" | Error string | RankingSubmitted

datatype out = ToSocket msg | ToRoom string msg | ToPlayer string string msg

record server =
  games :: "game obj"
  globalUsedQuestions :: "string list"
  questionCache :: "string list"
  fallbackQuestions :: "string list"

definition initialFallbackQuestions :: "string list" where
  "initialFallbackQuestions =
    [''Who is the most likely to become a famous inventor?'',
     ''Who is the most likely to forget their own birthday?'',
     ''Who is the most likely to win a marathon?'',
     ''Who is the most likely to trip over their own shoelaces?'',
     ''Who is the most likely to start a successful company?'',
     ''Who is the most likely to lose their keys in their own house?'']"

definition initialServer :: server where
  "initialServer =
    \<lparr>games = [], globalUsedQuestions = [], questionCache = [],
     fallbackQuestions = initialFallbackQuestions\<rparr>"

text \<open>
  What the process is started with: whether \<open>GROQ_API_KEY\<close> is set, the seed pool
  read from \<open>questions.json\<close> (deduplicated through a \<open>Set\<close>), and the scorer
  \<open>stringSimilarity.compareTwoStrings\<close> of the imported package.
\<close>

record config =
  hasApiKey :: bool
  questionPool :: "string list"
  compareTwoStrings :: "string \<Rightarrow> string \<Rightarrow> rat"

text \<open>
  What one handler run draws from outside: the outcome of each request to the
  generative service (attempt number to outcome), the permutations that the
  \<open>sort(() => Math.random() - 0.5)\<close> calls produce, and the index
  \<open>Math.floor(Math.random() * players.length)\<close>.
\<close>

datatype response = ApiFailure | Questions "string list"

record rnd =
  apiResponse :: "nat \<Rightarrow> response"
  shuffleExamples :: "nat \<Rightarrow> string list \<Rightarrow> string list"
  shufflePool :: "string list \<Rightarrow> string list"
  shuffleQuestions :: "string list \<Rightarrow> string list"
  shuffleRankers :: "string list \<Rightarrow> string list"
  randomIndex :: nat

section \<open>Question supply\<close>

definition unused :: "string list \<Rightarrow> string list \<Rightarrow> string \<Rightarrow> bool" where
  "unused used ledger q = (q \<notin> set used \<and> q \<notin> set ledger)"

definition selectFromQuestionPool ::
  "config \<Rightarrow> rnd \<Rightarrow> string \<Rightarrow> game \<Rightarrow> nat \<Rightarrow> server \<Rightarrow> string list \<times> game \<times> server \<times> out list" where
  "selectFromQuestionPool cfg r gameId gm numQuestions s =
    (let availableQuestions =
           filter (unused (usedQuestions gm) (globalUsedQuestions s)) (questionPool cfg)
     in if length availableQuestions < numQuestions then
          (let availableFallbacks =
                 filter (unused (usedQuestions gm) (globalUsedQuestions s)) (fallbackQuestions s);
               combinedQuestions = availableQuestions @ availableFallbacks
           in if length combinedQuestions < numQuestions then
                ([], gm, s, [ToRoom gameId (GameState (gm\<lparr>noMoreQuestions := True\<rparr>) None)])
              else
                (let selectedQuestions = take numQuestions (shufflePool r combinedQuestions)
                 in (selectedQuestions,
                     gm\<lparr>usedQuestions := addAll selectedQuestions (usedQuestions gm)\<rparr>,
                     s\<lparr>globalUsedQuestions := addAll selectedQuestions (globalUsedQuestions s)\<rparr>,
                     [])))
        else
          (let selectedQuestions = take numQuestions (shufflePool r availableQuestions)
           in (selectedQuestions,
               gm\<lparr>usedQuestions := addAll selectedQuestions (usedQuestions gm)\<rparr>,
               s\<lparr>globalUsedQuestions := addAll selectedQuestions (globalUsedQuestions s)\<rparr>,
               [])))"

text \<open>
  The drain loop of \<open>selectQuestions\<close>: shift the cache while it is not empty and fewer
  than \<open>numQuestions\<close> are taken. The result is the cache left, the strings taken, the
  room's used-set and the ledger.
\<close>

fun drainCache ::
  "nat \<Rightarrow> string list \<Rightarrow> string list \<Rightarrow> string list \<Rightarrow> string list
   \<Rightarrow> string list \<times> string list \<times> string list \<times> string list" where
  "drainCache numQuestions [] cached used ledger = ([], cached, used, ledger)"
| "drainCache numQuestions (c # cache) cached used ledger =
    (if length cached < numQuestions then
       (if unused used ledger c
        then drainCache numQuestions cache (cached @ [c]) (setAdd c used) (setAdd c ledger)
        else drainCache numQuestions cache cached used ledger)
     else (c # cache, cached, used, ledger))"

text \<open>
  The loop "Validate uniqueness and similarity" over the generated questions: the
  result is \<open>validQuestions\<close>, the room's used-set and the ledger.
\<close>

fun validateQuestions ::
  "(string \<Rightarrow> string \<Rightarrow> rat) \<Rightarrow> string list \<Rightarrow> string list \<Rightarrow> string list \<Rightarrow> string list
   \<Rightarrow> string list \<times> string list \<times> string list" where
  "validateQuestions cmp [] valid used ledger = (valid, used, ledger)"
| "validateQuestions cmp (q # qs) valid used ledger =
    (if q \<in> set used \<or> q \<in> set ledger then validateQuestions cmp qs valid used ledger
     else if list_ex (\<lambda>existingKey. cmp q existingKey > 7 / 10) ledger
       then validateQuestions cmp qs valid used ledger
     else validateQuestions cmp qs (valid @ [q]) (setAdd q used) (setAdd q ledger))"

definition validFormat :: "string \<Rightarrow> bool" where
  "validFormat q = (q \<noteq> [] \<and> prefix ''Who is the most likely to'' q)"

text \<open>
  The retry loop: \<open>k\<close> attempts are left, \<open>attempt\<close> is the loop counter. \<open>None\<close> in the
  first component means that the loop ended without a \<open>return\<close>.
\<close>

fun retryLoop ::
  "config \<Rightarrow> rnd \<Rightarrow> nat \<Rightarrow> nat \<Rightarrow> nat \<Rightarrow> string list \<Rightarrow> nat \<Rightarrow> game \<Rightarrow> server
   \<Rightarrow> string list option \<times> game \<times> server" where
  "retryLoop cfg r 0 attempt numQuestions cachedQuestions questionsNeeded gm s = (None, gm, s)"
| "retryLoop cfg r (Suc k) attempt numQuestions cachedQuestions questionsNeeded gm s =
    (let s1 = s\<lparr>fallbackQuestions := shuffleExamples r attempt (fallbackQuestions s)\<rparr>
     in case apiResponse r attempt of
          ApiFailure \<Rightarrow>
            retryLoop cfg r k (attempt + 1) numQuestions cachedQuestions questionsNeeded gm s1
        | Questions newQuestions \<Rightarrow>
            if length newQuestions < questionsNeeded \<or> \<not> list_all validFormat newQuestions
            then retryLoop cfg r k (attempt + 1) numQuestions cachedQuestions questionsNeeded gm s1
            else
              (let v = validateQuestions (compareTwoStrings cfg) newQuestions []
                         (usedQuestions gm) (globalUsedQuestions s1);
                   validQuestions = fst v;
                   gm2 = gm\<lparr>usedQuestions := fst (snd v)\<rparr>;
                   s2 = s1\<lparr>globalUsedQuestions := snd (snd v),
                           questionCache :=
                             (if length validQuestions > questionsNeeded
                              then questionCache s1 @ drop questionsNeeded validQuestions
                              else questionCache s1)\<rparr>;
                   allQuestions = cachedQuestions @ take questionsNeeded validQuestions
               in if length allQuestions \<ge> numQuestions
                  then (Some (take numQuestions allQuestions), gm2, s2)
                  else retryLoop cfg r k (attempt + 1) numQuestions cachedQuestions
                         questionsNeeded gm2 s2))"

definition maxRetries :: nat where
  "maxRetries = 10"

text \<open>
  \<open>selectQuestions\<close> mutates the room object it looked up (its \<open>usedQuestions\<close>) and the
  two global containers; the result holds the questions returned, the server after
  the call and the messages emitted.
\<close>

definition selectQuestions ::
  "config \<Rightarrow> rnd \<Rightarrow> string \<Rightarrow> nat \<Rightarrow> server \<Rightarrow> string list \<times> server \<times> out list" where
  "selectQuestions cfg r gameId numQuestions s =
    (case map_of (games s) gameId of
       None \<Rightarrow> ([], s, [])
     | Some gm \<Rightarrow>
        if \<not> hasApiKey cfg then
          (case selectFromQuestionPool cfg r gameId gm numQuestions s of
             (qs, gm', s', outs) \<Rightarrow> (qs, s'\<lparr>games := AList.update gameId gm' (games s')\<rparr>, outs))
        else
          (case drainCache numQuestions (questionCache s) [] (usedQuestions gm)
                  (globalUsedQuestions s) of
             (cache', cachedQuestions, used', ledger') \<Rightarrow>
               (let gm1 = gm\<lparr>usedQuestions := used'\<rparr>;
                    s1 = s\<lparr>questionCache := cache', globalUsedQuestions := ledger'\<rparr>
                in if length cachedQuestions \<ge> numQuestions then
                     (take numQuestions cachedQuestions,
                      s1\<lparr>games := AList.update gameId gm1 (games s1)\<rparr>, [])
                   else
                     (case retryLoop cfg r maxRetries 1 numQuestions cachedQuestions
                             (numQuestions - length cachedQuestions) gm1 s1 of
                        (Some qs, gm2, s2) \<Rightarrow>
                          (qs, s2\<lparr>games := AList.update gameId gm2 (games s2)\<rparr>, [])
                      | (None, gm2, s2) \<Rightarrow>
                          (case selectFromQuestionPool cfg r gameId gm2 numQuestions s2 of
                             (qs, gm', s', outs) \<Rightarrow>
                               (qs, s'\<lparr>games := AList.update gameId gm' (games s')\<rparr>, outs))))))"

section \<open>Game session engine\<close>

definition pointsOr0 :: "int obj \<Rightarrow> string \<Rightarrow> int" where
  "pointsOr0 pts p = (case map_of pts p of None \<Rightarrow> 0 | Some v \<Rightarrow> v)"

text \<open>
  \<open>players.sort((a, b) => (points[b] || 0) - (points[a] || 0))\<close>: a stable sort,
  descending by points.
\<close>

definition sortByPoints :: "int obj \<Rightarrow> string list \<Rightarrow> string list" where
  "sortByPoints pts ps = sort_key (\<lambda>p. - pointsOr0 pts p) ps"

definition emitToPlayers :: "string \<Rightarrow> game \<Rightarrow> out list" where
  "emitToPlayers gameId gm =
    map (\<lambda>player. ToPlayer gameId player (GameState gm (map_of (questionAssignments gm) player)))
      (players gm)"

definition newGame :: "string \<Rightarrow> game" where
  "newGame playerName =
    \<lparr>players = [playerName], points = [(playerName, 0)], state = Waiting, owner = playerName,
     usedQuestions = [], questionAssignments = [], rankings = [], currentRanker = Null,
     currentTarget = Null, currentQuestion = None, currentGuesses = [], actualPosition = None,
     currentFullRanking = None, rankers = [], currentRevealIndex = 0, noMoreQuestions = False\<rparr>"

text \<open>
  \<open>gameId\<close> is what \<open>generateGameId()\<close> returned, at most seven characters out of the
  digits and the lower-case letters. The points object is made by the literal
  \<open>{ [playerName]: 0 }\<close>, whose computed key is an own property for every name.
\<close>

definition createGame :: "server \<Rightarrow> string \<Rightarrow> string \<Rightarrow> server \<times> out list" where
  "createGame s playerName gameId =
    (s\<lparr>games := AList.update gameId (newGame playerName) (games s)\<rparr>,
     [ToSocket (GameState (newGame playerName) None)])"

text \<open>
  \<open>!games[gameId]\<close> is false for an own room and also for an inherited value; of the
  latter \<open>.players\<close> is \<open>undefined\<close>, so that \<open>.players.includes\<close> throws a TypeError and
  the handler ends without emitting anything: the result \<open>None\<close>.
\<close>

definition joinGame :: "server \<Rightarrow> string \<Rightarrow> string \<Rightarrow> (server \<times> out list) option" where
  "joinGame s gameId playerName =
    (case lookupProp (games s) gameId of
       Missing \<Rightarrow> Some (s, [ToSocket (Error ''Game not found'')])
     | Inherited \<Rightarrow> None
     | Own gm \<Rightarrow>
        if playerName \<in> set (players gm)
        then Some (s, [ToSocket (Error ''Name already taken'')])
        else
          (let gm' = gm\<lparr>players := players gm @ [playerName],
                        points := assignNumber playerName 0 (points gm),
                        state := Waiting\<rparr>
           in Some (s\<lparr>games := AList.update gameId gm' (games s)\<rparr>,
                    [ToRoom gameId (GameState gm' None)])))"

text \<open>
  \<open>players.forEach((player, idx) => questionAssignments[player] = questions[idx])\<close>.
  Past the end of \<open>questions\<close> the value stored is \<open>undefined\<close>, which reads like a
  missing key.
\<close>

fun assignEach :: "string list \<Rightarrow> string list \<Rightarrow> string obj \<Rightarrow> string obj" where
  "assignEach [] qs qa = qa"
| "assignEach (p # ps) [] qa = assignEach ps [] (AList.delete p qa)"
| "assignEach (p # ps) (q # qs) qa = assignEach ps qs (AList.update p q qa)"

text \<open>
  The handlers below return \<open>None\<close> where the source reads a property of \<open>undefined\<close>
  and so throws a \<open>TypeError\<close>.
\<close>

definition assignQuestions ::
  "config \<Rightarrow> rnd \<Rightarrow> string \<Rightarrow> server \<Rightarrow> (bool \<times> server \<times> out list) option" where
  "assignQuestions cfg r gameId s =
    (case map_of (games s) gameId of
       None \<Rightarrow> None
     | Some gm0 \<Rightarrow>
        (let numPlayers = length (players gm0)
         in case selectQuestions cfg r gameId numPlayers s of
              (questions, s1, outs) \<Rightarrow>
                if length questions < numPlayers then Some (False, s1, outs)
                else
                  (case map_of (games s1) gameId of
                     None \<Rightarrow> None
                   | Some gm \<Rightarrow>
                      (let gm' = gm\<lparr>questionAssignments :=
                                       assignEach (players gm) (shuffleQuestions r questions) [],
                                     rankings := [],
                                     rankers := shuffleRankers r (players gm),
                                     currentRevealIndex := 0\<rparr>
                       in Some (True, s1\<lparr>games := AList.update gameId gm' (games s1)\<rparr>, outs)))))"

definition startGame ::
  "config \<Rightarrow> rnd \<Rightarrow> server \<Rightarrow> string option \<Rightarrow> string \<Rightarrow> (server \<times> out list) option" where
  "startGame cfg r s me gameId =
    (case map_of (games s) gameId of
       None \<Rightarrow> Some (s, [ToSocket (Error ''Only the game owner can start the game'')])
     | Some gm0 \<Rightarrow>
        if Some (owner gm0) = me then
          (case assignQuestions cfg r gameId s of
             None \<Rightarrow> None
           | Some (success, s1, outs) \<Rightarrow>
              if success then
                (case map_of (games s1) gameId of
                   None \<Rightarrow> None
                 | Some gm \<Rightarrow>
                    (let gm' = gm\<lparr>state := Ranking\<rparr>
                     in Some (s1\<lparr>games := AList.update gameId gm' (games s1)\<rparr>,
                              outs @ emitToPlayers gameId gm')))
              else Some (s1, outs @ [ToSocket (Error ''No more unique questions available.'')]))
        else Some (s, [ToSocket (Error ''Only the game owner can start the game'')]))"

definition myQuestionOrEmpty :: "game \<Rightarrow> string \<Rightarrow> string" where
  "myQuestionOrEmpty gm player =
    (case map_of (questionAssignments gm) player of None \<Rightarrow> [] | Some q \<Rightarrow> q)"

definition startNewRound ::
  "config \<Rightarrow> rnd \<Rightarrow> string \<Rightarrow> server \<Rightarrow> (server \<times> out list) option" where
  "startNewRound cfg r gameId s =
    (case assignQuestions cfg r gameId s of
       None \<Rightarrow> None
     | Some (success, s1, outs) \<Rightarrow>
        (case map_of (games s1) gameId of
           None \<Rightarrow> None
         | Some gm \<Rightarrow>
            if success then
              (let gm' = gm\<lparr>state := Ranking, rankings := [], currentRanker := Null,
                            currentTarget := Null, currentQuestion := None,
                            currentGuesses := [], actualPosition := None,
                            currentFullRanking := None\<rparr>
               in Some (s1\<lparr>games := AList.update gameId gm' (games s1)\<rparr>,
                        outs @ map (\<lambda>player. ToPlayer gameId player
                                      (GameState gm' (Some (myQuestionOrEmpty gm' player))))
                                 (players gm')))
            else
              Some (s1, outs @ [ToRoom gameId (GameState (gm\<lparr>noMoreQuestions := True\<rparr>) None)])))"

text \<open>
  \<open>Math.floor(Math.random() * players.length)\<close> is an index below \<open>players.length\<close>:
  the draw \<open>randomIndex\<close> is reduced modulo the length.
\<close>

definition setNextReveal ::
  "config \<Rightarrow> rnd \<Rightarrow> string \<Rightarrow> server \<Rightarrow> (server \<times> out list) option" where
  "setNextReveal cfg r gameId s =
    (case map_of (games s) gameId of
       None \<Rightarrow> None
     | Some gm \<Rightarrow>
        if currentRevealIndex gm \<ge> length (players gm) then startNewRound cfg r gameId s
        else
          (let ranker = (if currentRevealIndex gm < length (rankers gm)
                         then Str (rankers gm ! currentRevealIndex gm) else Undefined);
               target = Str (players gm ! (randomIndex r mod length (players gm)))
           in case map_of (rankings gm) (propKey ranker) of
                None \<Rightarrow> None
              | Some ranking \<Rightarrow>
                 (let gm' = gm\<lparr>currentRanker := ranker,
                               currentTarget := target,
                               currentQuestion := map_of (questionAssignments gm) (propKey ranker),
                               currentGuesses := [],
                               actualPosition := Some (indexOf ranking target + 1),
                               currentFullRanking := None,
                               state := Guessing\<rparr>
                  in Some (s\<lparr>games := AList.update gameId gm' (games s)\<rparr>,
                           emitToPlayers gameId gm'))))"

definition submitRanking ::
  "config \<Rightarrow> rnd \<Rightarrow> server \<Rightarrow> string option \<Rightarrow> string \<Rightarrow> string list
   \<Rightarrow> (server \<times> out list) option" where
  "submitRanking cfg r s me gameId ranking =
    (case map_of (games s) gameId of
       None \<Rightarrow> Some (s, [])
     | Some gm \<Rightarrow>
        (case me of
           None \<Rightarrow> Some (s, [])
         | Some playerName \<Rightarrow>
            if playerName \<notin> set (players gm) then Some (s, [])
            else if state gm \<noteq> Ranking then Some (s, [])
            else if length ranking \<noteq> length (players gm)
              then Some (s, [ToSocket (Error ''Invalid ranking'')])
            else if \<not> list_all (\<lambda>p. p \<in> set (players gm)) ranking
              then Some (s, [ToSocket (Error ''Invalid ranking'')])
            else
              (let gm1 = gm\<lparr>rankings := AList.update playerName ranking (rankings gm)\<rparr>;
                   s1 = s\<lparr>games := AList.update gameId gm1 (games s)\<rparr>
               in if length (map fst (rankings gm1)) = length (players gm1) then
                    (case setNextReveal cfg r gameId s1 of
                       None \<Rightarrow> None
                     | Some (s2, outs) \<Rightarrow> Some (s2, ToSocket RankingSubmitted # outs))
                  else Some (s1, [ToSocket RankingSubmitted]))))"

text \<open>
  The block "Award points": \<open>Object.keys(currentGuesses).forEach\<close>, with the points
  and \<open>correctGuessCount\<close> carried along.
\<close>

fun awardGuessers ::
  "int obj \<Rightarrow> int option \<Rightarrow> string list \<Rightarrow> int obj \<Rightarrow> nat \<Rightarrow> int obj \<times> nat" where
  "awardGuessers guesses actual [] pts correctGuessCount = (pts, correctGuessCount)"
| "awardGuessers guesses actual (guesser # rest) pts correctGuessCount =
    (if map_of guesses guesser = actual
     then awardGuessers guesses actual rest
            (AList.update guesser (pointsOr0 pts guesser + 1) pts) (correctGuessCount + 1)
     else awardGuessers guesses actual rest pts correctGuessCount)"

definition awardPoints :: "game \<Rightarrow> game" where
  "awardPoints gm =
    (let a = awardGuessers (currentGuesses gm) (actualPosition gm)
               (map fst (currentGuesses gm)) (points gm) 0;
         rankerPoints = min (snd a) 3;
         pts = AList.update (propKey (currentRanker gm))
                 (pointsOr0 (fst a) (propKey (currentRanker gm)) + int rankerPoints) (fst a)
     in gm\<lparr>points := pts,
           players := sortByPoints pts (players gm),
           currentFullRanking := map_of (rankings gm) (propKey (currentRanker gm)),
           state := Reveal\<rparr>)"

text \<open>A guess is an integer; the comparisons and \<open>===\<close> are those of numbers.\<close>

definition submitGuess :: "server \<Rightarrow> string option \<Rightarrow> string \<Rightarrow> int \<Rightarrow> server \<times> out list" where
  "submitGuess s me gameId guess =
    (case map_of (games s) gameId of
       None \<Rightarrow> (s, [])
     | Some gm \<Rightarrow>
        (case me of
           None \<Rightarrow> (s, [])
         | Some playerName \<Rightarrow>
            if playerName \<notin> set (players gm) then (s, [])
            else if state gm \<noteq> Guessing then (s, [])
            else if Str playerName = currentRanker gm
              then (s, [ToSocket (Error ''You cannot guess as the ranker'')])
            else if guess < 1 \<or> guess > int (length (players gm))
              then (s, [ToSocket (Error ''Invalid guess'')])
            else
              (let gm1 = gm\<lparr>currentGuesses := AList.update playerName guess (currentGuesses gm)\<rparr>;
                   nonRankerPlayers = filter (\<lambda>p. Str p \<noteq> currentRanker gm1) (players gm1)
               in if length (map fst (currentGuesses gm1)) = length nonRankerPlayers then
                    (let gm2 = awardPoints gm1
                     in (s\<lparr>games := AList.update gameId gm2 (games s)\<rparr>,
                         emitToPlayers gameId gm2))
                  else
                    (s\<lparr>games := AList.update gameId gm1 (games s)\<rparr>,
                     [ToRoom gameId
                        (GameState gm1 (map_of (questionAssignments gm1) playerName))]))))"

definition nextReveal ::
  "config \<Rightarrow> rnd \<Rightarrow> server \<Rightarrow> string option \<Rightarrow> string \<Rightarrow> (server \<times> out list) option" where
  "nextReveal cfg r s me gameId =
    (case map_of (games s) gameId of
       None \<Rightarrow> Some (s, [ToSocket (Error ''Only the game owner can advance'')])
     | Some gm \<Rightarrow>
        if Some (owner gm) = me then
          (if state gm \<noteq> Reveal then Some (s, [])
           else
             (let gm1 = gm\<lparr>currentRevealIndex := currentRevealIndex gm + 1\<rparr>
              in setNextReveal cfg r gameId (s\<lparr>games := AList.update gameId gm1 (games s)\<rparr>)))
        else Some (s, [ToSocket (Error ''Only the game owner can advance'')]))"

text \<open>
  The disconnect handler walks over every room. \<open>leaveGame\<close> is the body of its loop
  for a room that holds the name: \<open>None\<close> when the room is deleted.
\<close>

definition leaveGame :: "string \<Rightarrow> game \<Rightarrow> game option" where
  "leaveGame playerName gm =
    (let gm1 = gm\<lparr>players := remove1 playerName (players gm),
                  points := AList.delete playerName (points gm),
                  questionAssignments := AList.delete playerName (questionAssignments gm),
                  rankings := AList.delete playerName (rankings gm)\<rparr>
     in if length (players gm1) = 0 then None
        else Some (gm1\<lparr>state := (if length (players gm1) > 1 then Waiting else Joining),
                       players := sortByPoints (points gm1) (players gm1)\<rparr>))"

fun disconnectAll :: "string option \<Rightarrow> game obj \<Rightarrow> game obj \<times> out list" where
  "disconnectAll me [] = ([], [])"
| "disconnectAll me ((gameId, gm) # rest) =
    (case me of
       None \<Rightarrow> ((gameId, gm) # fst (disconnectAll me rest), snd (disconnectAll me rest))
     | Some playerName \<Rightarrow>
        if playerName \<in> set (players gm) then
          (case leaveGame playerName gm of
             None \<Rightarrow> disconnectAll me rest
           | Some gm' \<Rightarrow>
              ((gameId, gm') # fst (disconnectAll me rest),
               ToRoom gameId (GameState gm' None) # snd (disconnectAll me rest)))
        else ((gameId, gm) # fst (disconnectAll me rest), snd (disconnectAll me rest)))"

definition disconnect :: "server \<Rightarrow> string option \<Rightarrow> server \<times> out list" where
  "disconnect s me =
    (s\<lparr>games := fst (disconnectAll me (games s))\<rparr>, snd (disconnectAll me (games s)))"

section \<open>Runs of the server\<close>

datatype event =
    CreateGame string string
  | JoinGame string string
  | StartGame "string option" string
  | SubmitRanking "string option" string "string list"
  | SubmitGuess "string option" string int
  | NextReveal "string option" string
  | Disconnect "string option"

text \<open>
  One handler run. The first \<open>string option\<close> of an event is \<open>socket.playerName\<close> of
  the connection that sent it.
\<close>

fun step :: "config \<Rightarrow> rnd \<Rightarrow> server \<Rightarrow> event \<Rightarrow> (server \<times> out list) option" where
  "step cfg r s (CreateGame playerName gameId) = Some (createGame s playerName gameId)"
| "step cfg r s (JoinGame gameId playerName) = joinGame s gameId playerName"
| "step cfg r s (StartGame me gameId) = startGame cfg r s me gameId"
| "step cfg r s (SubmitRanking me gameId ranking) = submitRanking cfg r s me gameId ranking"
| "step cfg r s (SubmitGuess me gameId guess) = Some (submitGuess s me gameId guess)"
| "step cfg r s (NextReveal me gameId) = nextReveal cfg r s me gameId"
| "step cfg r s (Disconnect me) = Some (disconnect s me)"

text \<open>Every random sort returns a permutation of its argument.\<close>

definition permuting :: "(string list \<Rightarrow> string list) \<Rightarrow> bool" where
  "permuting f = (\<forall>xs. mset (f xs) = mset xs)"

definition validRnd :: "rnd \<Rightarrow> bool" where
  "validRnd r = (permuting (shufflePool r) \<and> permuting (shuffleQuestions r)
     \<and> permuting (shuffleRankers r) \<and> (\<forall>i. permuting (shuffleExamples r i)))"

inductive reachable :: "config \<Rightarrow> server \<Rightarrow> bool" for cfg :: config where
  reachable_init: "reachable cfg initialServer"
| reachable_step:
    "reachable cfg s \<Longrightarrow> validRnd r \<Longrightarrow> step cfg r s ev = Some (s', outs)
     \<Longrightarrow> reachable cfg s'"

text \<open>
  A run handles a list of events in order, each with what its handler draws from
  outside, and collects what is emitted.
\<close>

fun run :: "config \<Rightarrow> server \<Rightarrow> (rnd \<times> event) list \<Rightarrow> (server \<times> out list) option" where
  "run cfg s [] = Some (s, [])"
| "run cfg s ((r, ev) # evs) =
    (case step cfg r s ev of
       None \<Rightarrow> None
     | Some (s', outs) \<Rightarrow>
        (case run cfg s' evs of
           None \<Rightarrow> None
         | Some (s'', outs') \<Rightarrow> Some (s'', outs @ outs')))"

definition roomOf :: "server \<Rightarrow> string \<Rightarrow> game option" where
  "roomOf s gameId = map_of (games s) gameId"

section \<open>Invariants\<close>

text \<open>
  What holds of every room at every moment: the names in \<open>players\<close> and the keys of
  \<open>currentGuesses\<close> are distinct, the ranker has no entry in \<open>currentGuesses\<close>, the
  stored flag \<open>noMoreQuestions\<close> is false; during guessing the ranker is a player,
  only players have guessed, and with two players or more a guess is still missing;
  from the start of a round on, \<open>rankers\<close> is a permutation of \<open>players\<close>.
\<close>

definition roomInv :: "game \<Rightarrow> bool" where
  "roomInv gm =
    (distinct (players gm)
     \<and> distinct (map fst (currentGuesses gm))
     \<and> currentRanker gm \<notin> Str ` fst ` set (currentGuesses gm)
     \<and> noMoreQuestions gm = False
     \<and> (state gm = Guessing \<longrightarrow>
          currentRanker gm \<in> Str ` set (players gm)
          \<and> fst ` set (currentGuesses gm) \<subseteq> set (players gm)
          \<and> (2 \<le> length (players gm) \<longrightarrow>
               length (currentGuesses gm) < length (players gm) - 1))
     \<and> (state gm \<in> {Ranking, Guessing, Reveal} \<longrightarrow> mset (rankers gm) = mset (players gm)))"

text \<open>
  Of the server: room identifiers are distinct keys, every cached question is in the
  ledger already, and every room satisfies \<open>roomInv\<close>.
\<close>

definition serverInv :: "server \<Rightarrow> bool" where
  "serverInv s =
    (distinct (map fst (games s))
     \<and> set (questionCache s) \<subseteq> set (globalUsedQuestions s)
     \<and> (\<forall>gameId gm. map_of (games s) gameId = Some gm \<longrightarrow> roomInv gm))"

section \<open>Concrete configurations and runs\<close>

text \<open>
  No API key, a seed pool of four questions, sorts that leave the order as it is, and
  the random index 1.
\<close>

definition exampleConfig :: config where
  "exampleConfig =
    \<lparr>hasApiKey = False, questionPool = [''Q1'', ''Q2'', ''Q3'', ''Q4''],
     compareTwoStrings = (\<lambda>a b. 0)\<rparr>"

definition exampleRnd :: rnd where
  "exampleRnd =
    \<lparr>apiResponse = (\<lambda>attempt. ApiFailure), shuffleExamples = (\<lambda>attempt xs. xs),
     shufflePool = (\<lambda>xs. xs), shuffleQuestions = (\<lambda>xs. xs), shuffleRankers = (\<lambda>xs. xs),
     randomIndex = 1\<rparr>"

text \<open>Two players A and B; A owns the room and has started the game.\<close>

definition twoPlayersStarted :: "(rnd \<times> event) list" where
  "twoPlayersStarted =
    map (Pair exampleRnd)
      [CreateGame ''A'' ''g'', JoinGame ''g'' ''B'', StartGame (Some ''A'') ''g'']"

text \<open>Both rank; A is the ranker, the target B is at position 2; then B guesses 2.\<close>

definition twoPlayersGuessing :: "(rnd \<times> event) list" where
  "twoPlayersGuessing =
    twoPlayersStarted @
    map (Pair exampleRnd)
      [SubmitRanking (Some ''A'') ''g'' [''A'', ''B''],
       SubmitRanking (Some ''B'') ''g'' [''B'', ''A'']]"

definition twoPlayersRevealed :: "(rnd \<times> event) list" where
  "twoPlayersRevealed = twoPlayersGuessing @ [(exampleRnd, SubmitGuess (Some ''B'') ''g'' 2)]"

text \<open>A submits a ranking that names A twice and B never.\<close>

definition duplicateRanking :: "(rnd \<times> event) list" where
  "duplicateRanking =
    twoPlayersStarted @ [(exampleRnd, SubmitRanking (Some ''A'') ''g'' [''A'', ''A''])]"

text \<open>The server and a room after a run from the initial server.\<close>

definition stateAfter :: "config \<Rightarrow> (rnd \<times> event) list \<Rightarrow> server" where
  "stateAfter cfg evs =
    (case run cfg initialServer evs of None \<Rightarrow> initialServer | Some (s, outs) \<Rightarrow> s)"

definition roomAfter :: "config \<Rightarrow> (rnd \<times> event) list \<Rightarrow> string \<Rightarrow> game" where
  "roomAfter cfg evs gameId =
    (case roomOf (stateAfter cfg evs) gameId of None \<Rightarrow> newGame [] | Some gm \<Rightarrow> gm)"

text \<open>A single player creates a room, starts the game and ranks.\<close>

definition onePlayerGuessing :: "(rnd \<times> event) list" where
  "onePlayerGuessing =
    map (Pair exampleRnd)
      [CreateGame ''A'' ''g'', StartGame (Some ''A'') ''g'',
       SubmitRanking (Some ''A'') ''g'' [''A'']]"

text \<open>
  The guessers whose stored guess equals \<open>actualPosition\<close>, in the order of
  \<open>Object.keys(currentGuesses)\<close>.
\<close>

definition correctGuessers :: "game \<Rightarrow> string list" where
  "correctGuessers gm =
    map fst (filter (\<lambda>(guesser, guess). Some guess = actualPosition gm) (currentGuesses gm))"

text \<open>
  Six players. R owns the room and is the first ranker, P1 is the target and stands
  at position 2 of R's ranking; the five others all guess 2.
\<close>

definition sixPlayersRanking :: "string list" where
  "sixPlayersRanking = [''R'', ''P1'', ''P2'', ''P3'', ''P4'', ''P5'']"

definition sixPlayersGuessing :: "(rnd \<times> event) list" where
  "sixPlayersGuessing =
    map (Pair exampleRnd)
      ([CreateGame ''R'' ''g''] @ map (JoinGame ''g'') [''P1'', ''P2'', ''P3'', ''P4'', ''P5'']
       @ [StartGame (Some ''R'') ''g'']
       @ map (\<lambda>p. SubmitRanking (Some p) ''g'' sixPlayersRanking) sixPlayersRanking
       @ map (\<lambda>p. SubmitGuess (Some p) ''g'' 2) [''P1'', ''P2'', ''P3'', ''P4''])"

text \<open>
  Four players; the owner starts the game twice. The seed pool of four and four of the
  six fallback questions are used up, two fallback questions are left.
\<close>

definition fourPlayersTwoStarts :: "(rnd \<times> event) list" where
  "fourPlayersTwoStarts =
    map (Pair exampleRnd)
      [CreateGame ''A'' ''g'', JoinGame ''g'' ''B'', JoinGame ''g'' ''C'', JoinGame ''g'' ''D'',
       StartGame (Some ''A'') ''g'', StartGame (Some ''A'') ''g'']"

text \<open>
  With an API key. The service answers a request with three well-formed questions;
  for a room of two, one of them is surplus.
\<close>

definition apiConfig :: config where
  "apiConfig =
    \<lparr>hasApiKey = True, questionPool = [''Q1'', ''Q2'', ''Q3'', ''Q4''],
     compareTwoStrings = (\<lambda>a b. 0)\<rparr>"

definition threeGenerated :: "string list" where
  "threeGenerated =
    [''Who is the most likely to adopt ten cats?'',
     ''Who is the most likely to sleep through an alarm?'',
     ''Who is the most likely to sing in the shower?'']"

definition generousRnd :: rnd where
  "generousRnd = exampleRnd\<lparr>apiResponse := (\<lambda>attempt. Questions threeGenerated)\<rparr>"

definition surplusCached :: "(rnd \<times> event) list" where
  "surplusCached =
    [(exampleRnd, CreateGame ''A'' ''g''), (exampleRnd, JoinGame ''g'' ''B''),
     (generousRnd, StartGame (Some ''A'') ''g'')]"

text \<open>Then C opens a second room and starts it while the service fails.\<close>

definition surplusThenOtherRoom :: "(rnd \<times> event) list" where
  "surplusThenOtherRoom =
    surplusCached @
    [(exampleRnd, CreateGame ''C'' ''h''), (exampleRnd, StartGame (Some ''C'') ''h'')]"

text \<open>
  Modelled from the spec: the Similarity Scorer. The package \<open>string-similarity\<close>
  that \<open>server.js\<close> imports is not part of the sources; the spec asks for a
  deterministic, symmetric score in [0, 1] with \<open>score(a, a) = 1\<close> and names the
  bigram (Dice) coefficient as an implementation. \<open>diceCoefficient\<close> is that
  coefficient on the strings without white space: twice the number of shared
  bigrams over the number of bigrams of both. The theorems below hold for any
  scorer; this one is used where a concrete score is computed.
\<close>

definition removeWhitespace :: "string \<Rightarrow> string" where
  "removeWhitespace s =
    filter (\<lambda>c. c \<notin> set [CHR '' '', CHR 0x09, CHR 0x0A, CHR 0x0B, CHR 0x0C, CHR 0x0D]) s"

fun bigrams :: "string \<Rightarrow> (char \<times> char) list" where
  "bigrams (a # b # cs) = (a, b) # bigrams (b # cs)"
| "bigrams cs = []"

fun intersectionSize :: "(char \<times> char) list \<Rightarrow> (char \<times> char) list \<Rightarrow> nat" where
  "intersectionSize firstBigrams [] = 0"
| "intersectionSize firstBigrams (b # bs) =
    (if b \<in> set firstBigrams then 1 + intersectionSize (remove1 b firstBigrams) bs
     else intersectionSize firstBigrams bs)"

definition diceCoefficient :: "string \<Rightarrow> string \<Rightarrow> rat" where
  "diceCoefficient a b =
    (let first = removeWhitespace a; second = removeWhitespace b
     in if first = second then 1
        else if length first < 2 \<or> length second < 2 then 0
        else of_nat (2 * intersectionSize (bigrams first) (bigrams second))
               / of_nat (length first + length second - 2))"

text \<open>A seed pool of two questions that differ in a few letters, without an API key.\<close>

definition similarQuestions :: "string list" where
  "similarQuestions =
    [''Who is the most likely to cry at a wedding?'',
     ''Who is the most likely to cry at weddings?'']"

definition similarPoolConfig :: config where
  "similarPoolConfig =
    \<lparr>hasApiKey = False, questionPool = similarQuestions,
     compareTwoStrings = diceCoefficient\<rparr>"

text \<open>
  The same two questions and a third one as the answer of the service, with an API
  key.
\<close>

definition diceApiConfig :: config where
  "diceApiConfig =
    \<lparr>hasApiKey = True, questionPool = [''Q1'', ''Q2'', ''Q3'', ''Q4''],
     compareTwoStrings = diceCoefficient\<rparr>"

definition similarRnd :: rnd where
  "similarRnd =
    exampleRnd\<lparr>apiResponse :=
      (\<lambda>attempt. Questions (similarQuestions @ [''Who is the most likely to adopt ten cats?'']))\<rparr>"

definition twoPlayersJoined :: "(rnd \<times> event) list" where
  "twoPlayersJoined = map (Pair exampleRnd) [CreateGame ''A'' ''g'', JoinGame ''g'' ''B'']"

text \<open>The retry loop of the first start in the room of A and B, for two questions.\<close>

definition similarAttempt :: "string list option \<times> game \<times> server" where
  "similarAttempt =
    retryLoop diceApiConfig similarRnd maxRetries 1 2 [] 2
      (roomAfter diceApiConfig twoPlayersJoined ''g'') (stateAfter diceApiConfig twoPlayersJoined)"

text \<open>A seed pool that holds one of the fallback questions.\<close>

definition overlapConfig :: config where
  "overlapConfig =
    \<lparr>hasApiKey = False,
     questionPool = [''Who is the most likely to become a famous inventor?''],
     compareTwoStrings = diceCoefficient\<rparr>"

text \<open>
  \<open>spread cmp base qs\<close>: every question of \<open>qs\<close> is new and scores at most 0.7
  against every string of \<open>base\<close> and against every question before it in \<open>qs\<close>.
\<close>

fun spread :: "(string \<Rightarrow> string \<Rightarrow> rat) \<Rightarrow> string list \<Rightarrow> string list \<Rightarrow> bool" where
  "spread cmp base [] = True"
| "spread cmp base (q # qs) =
    (q \<notin> set base \<and> list_all (\<lambda>existingKey. cmp q existingKey \<le> 7 / 10) base
     \<and> spread cmp (base @ [q]) qs)"

text \<open>
  What \<open>selectFromQuestionPool\<close> compares with \<open>numQuestions\<close> before it gives up:
  \<open>availableQuestions.length + availableFallbacks.length\<close>, the unused entries of the
  seed pool and the unused entries of the fallback list, each list counted by itself.
\<close>

definition unusedCount :: "config \<Rightarrow> game \<Rightarrow> server \<Rightarrow> nat" where
  "unusedCount cfg gm s =
    length (filter (unused (usedQuestions gm) (globalUsedQuestions s)) (questionPool cfg))
    + length (filter (unused (usedQuestions gm) (globalUsedQuestions s)) (fallbackQuestions s))"

text \<open>
  The part of \<open>selectQuestions\<close> that comes before the call of
  \<open>selectFromQuestionPool\<close> at its end: the drain of the cache and the retry loop, when
  there is an API key. \<open>None\<close> in the first component means that this part has not
  returned, so that the seed pool and the fallback list are asked.
\<close>

definition generativePath ::
  "config \<Rightarrow> rnd \<Rightarrow> nat \<Rightarrow> game \<Rightarrow> server \<Rightarrow> string list option \<times> game \<times> server" where
  "generativePath cfg r numQuestions gm s =
    (if \<not> hasApiKey cfg then (None, gm, s)
     else
       (case drainCache numQuestions (questionCache s) [] (usedQuestions gm)
               (globalUsedQuestions s) of
          (cache', cachedQuestions, used', ledger') \<Rightarrow>
            (let gm1 = gm\<lparr>usedQuestions := used'\<rparr>;
                 s1 = s\<lparr>questionCache := cache', globalUsedQuestions := ledger'\<rparr>
             in if length cachedQuestions \<ge> numQuestions
                then (Some (take numQuestions cachedQuestions), gm1, s1)
                else retryLoop cfg r maxRetries 1 numQuestions cachedQuestions
                       (numQuestions - length cachedQuestions) gm1 s1)))"

section \<open>What the question supply leaves unchanged\<close>

lemma set_setAdd [simp]: "set (setAdd x xs) = insert x (set xs)"
  by (auto simp: setAdd_def)

lemma set_addAll [simp]: "set (addAll qs xs) = set xs \<union> set qs"
  unfolding addAll_def by (induction qs arbitrary: xs) auto

lemma usedQuestions_only_refl: "\<exists>u. gm = gm\<lparr>usedQuestions := u\<rparr>"
  by (rule exI [of _ "usedQuestions gm"]) simp

lemma pool_frame:
  assumes "selectFromQuestionPool cfg r gid gm n s = (qs, gm', s', outs)"
  shows "games s' = games s \<and> questionCache s' = questionCache s
    \<and> fallbackQuestions s' = fallbackQuestions s
    \<and> set (globalUsedQuestions s) \<subseteq> set (globalUsedQuestions s')
    \<and> (\<exists>u. gm' = gm\<lparr>usedQuestions := u\<rparr>)"
  using assms usedQuestions_only_refl [of gm]
  by (auto simp: selectFromQuestionPool_def Let_def split: if_splits)

lemma drain_frame:
  "drainCache n cache cached used ledger = (cache', cached', used', ledger')
   \<Longrightarrow> set cache' \<subseteq> set cache \<and> set ledger \<subseteq> set ledger'"
  by (induction n cache cached used ledger rule: drainCache.induct)
     (auto split: if_splits)

lemma validate_frame:
  "validateQuestions cmp qs valid used ledger = (valid', used', ledger')
   \<Longrightarrow> set ledger \<subseteq> set ledger' \<and> set valid' \<subseteq> set valid \<union> set ledger'"
  by (induction cmp qs valid used ledger rule: validateQuestions.induct)
     (auto split: if_splits)

lemma retry_frame:
  "retryLoop cfg r k a n c need gm s = (res, gm', s')
   \<Longrightarrow> games s' = games s \<and> (\<exists>u. gm' = gm\<lparr>usedQuestions := u\<rparr>)
     \<and> set (globalUsedQuestions s) \<subseteq> set (globalUsedQuestions s')
     \<and> (set (questionCache s) \<subseteq> set (globalUsedQuestions s)
          \<longrightarrow> set (questionCache s') \<subseteq> set (globalUsedQuestions s'))"
proof (induction k arbitrary: a gm s)
  case 0
  then show ?case using usedQuestions_only_refl [of gm] by auto
next
  case (Suc k)
  let ?s1 = "s\<lparr>fallbackQuestions := shuffleExamples r a (fallbackQuestions s)\<rparr>"
  show ?case
  proof (cases "apiResponse r a")
    case ApiFailure
    with Suc.prems have "retryLoop cfg r k (a + 1) n c need gm ?s1 = (res, gm', s')"
      by simp
    from Suc.IH [OF this] show ?thesis by simp
  next
    case (Questions newQuestions)
    show ?thesis
    proof (cases "length newQuestions < need \<or> \<not> list_all validFormat newQuestions")
      case True
      with Questions Suc.prems have "retryLoop cfg r k (a + 1) n c need gm ?s1 = (res, gm', s')"
        by (simp split: if_splits)
      from Suc.IH [OF this] show ?thesis by simp
    next
      case False
      obtain valid used' ledger' where
        v: "validateQuestions (compareTwoStrings cfg) newQuestions [] (usedQuestions gm)
              (globalUsedQuestions s) = (valid, used', ledger')"
        by (cases "validateQuestions (compareTwoStrings cfg) newQuestions [] (usedQuestions gm)
              (globalUsedQuestions s)") auto
      from validate_frame [OF v] have vf: "set (globalUsedQuestions s) \<subseteq> set ledger'"
        "set valid \<subseteq> set ledger'" by auto
      let ?gm2 = "gm\<lparr>usedQuestions := used'\<rparr>"
      let ?s2 = "?s1\<lparr>globalUsedQuestions := ledger',
                   questionCache := (if length valid > need
                              then questionCache ?s1 @ drop need valid
                              else questionCache ?s1)\<rparr>"
      have cache2: "set (questionCache s) \<subseteq> set (globalUsedQuestions s)
          \<Longrightarrow> set (questionCache ?s2) \<subseteq> set (globalUsedQuestions ?s2)"
        using vf by (auto dest: in_set_dropD)
      show ?thesis
      proof (cases "length (c @ take need valid) \<ge> n")
        case True
        with False Questions v Suc.prems
        have "gm' = ?gm2" "s' = ?s2"
          by (auto simp: Let_def)
        then show ?thesis using vf cache2 by auto
      next
        case False2: False
        with False Questions v Suc.prems
        have "retryLoop cfg r k (a + 1) n c need ?gm2 ?s2 = (res, gm', s')"
          by (auto simp: Let_def)
        from Suc.IH [OF this] show ?thesis using vf cache2 by auto
      qed
    qed
  qed
qed

lemma select_frame:
  assumes "selectQuestions cfg r gid n s = (qs, s', outs)"
  shows "set (globalUsedQuestions s) \<subseteq> set (globalUsedQuestions s')"
    and "set (questionCache s) \<subseteq> set (globalUsedQuestions s)
         \<Longrightarrow> set (questionCache s') \<subseteq> set (globalUsedQuestions s')"
    and "map_of (games s) gid = None \<Longrightarrow> games s' = games s"
    and "map_of (games s) gid = Some gm
         \<Longrightarrow> \<exists>u. games s' = AList.update gid (gm\<lparr>usedQuestions := u\<rparr>) (games s)"
proof -
  have "set (globalUsedQuestions s) \<subseteq> set (globalUsedQuestions s')
     \<and> (set (questionCache s) \<subseteq> set (globalUsedQuestions s)
         \<longrightarrow> set (questionCache s') \<subseteq> set (globalUsedQuestions s'))
     \<and> (map_of (games s) gid = None \<longrightarrow> games s' = games s)
     \<and> (\<forall>gm. map_of (games s) gid = Some gm
         \<longrightarrow> (\<exists>u. games s' = AList.update gid (gm\<lparr>usedQuestions := u\<rparr>) (games s)))"
  proof (cases "map_of (games s) gid")
    case None
    with assms show ?thesis by (simp add: selectQuestions_def)
  next
    case (Some gm)
    show ?thesis
    proof (cases "hasApiKey cfg")
      case False
      obtain qs0 gm0 s0 outs0 where
        p: "selectFromQuestionPool cfg r gid gm n s = (qs0, gm0, s0, outs0)"
        by (cases "selectFromQuestionPool cfg r gid gm n s") auto
      with assms Some False have s': "s' = s0\<lparr>games := AList.update gid gm0 (games s0)\<rparr>"
        by (simp add: selectQuestions_def)
      from pool_frame [OF p] s' Some show ?thesis by auto
    next
      case True
      obtain cache1 cached used1 ledger1 where
        d: "drainCache n (questionCache s) [] (usedQuestions gm) (globalUsedQuestions s)
              = (cache1, cached, used1, ledger1)"
        by (cases "drainCache n (questionCache s) [] (usedQuestions gm) (globalUsedQuestions s)")
           auto
      let ?gm1 = "gm\<lparr>usedQuestions := used1\<rparr>"
      let ?s1 = "s\<lparr>questionCache := cache1, globalUsedQuestions := ledger1\<rparr>"
      from drain_frame [OF d] have df: "set cache1 \<subseteq> set (questionCache s)"
        "set (globalUsedQuestions s) \<subseteq> set ledger1" by auto
      show ?thesis
      proof (cases "length cached \<ge> n")
        case True
        with assms Some \<open>hasApiKey cfg\<close> d
        have "s' = ?s1\<lparr>games := AList.update gid ?gm1 (games ?s1)\<rparr>"
          by (simp add: selectQuestions_def)
        with df Some show ?thesis by auto
      next
        case False
        obtain res gm2 s2 where
          rl: "retryLoop cfg r maxRetries 1 n cached (n - length cached) ?gm1 ?s1 = (res, gm2, s2)"
          by (cases "retryLoop cfg r maxRetries 1 n cached (n - length cached) ?gm1 ?s1") auto
        from retry_frame [OF rl] obtain u2 where
          rf: "games s2 = games s" "gm2 = gm\<lparr>usedQuestions := u2\<rparr>"
            "set ledger1 \<subseteq> set (globalUsedQuestions s2)"
            "set cache1 \<subseteq> set ledger1 \<longrightarrow> set (questionCache s2) \<subseteq> set (globalUsedQuestions s2)"
          by auto
        show ?thesis
        proof (cases res)
          case (Some qs1)
          with assms \<open>map_of (games s) gid = Some gm\<close> \<open>hasApiKey cfg\<close> d False rl
          have "s' = s2\<lparr>games := AList.update gid gm2 (games s2)\<rparr>"
            by (simp add: selectQuestions_def)
          with rf df \<open>map_of (games s) gid = Some gm\<close> show ?thesis by auto
        next
          case None
          obtain qs0 gm0 s0 outs0 where
            p: "selectFromQuestionPool cfg r gid gm2 n s2 = (qs0, gm0, s0, outs0)"
            by (cases "selectFromQuestionPool cfg r gid gm2 n s2") auto
          with assms \<open>map_of (games s) gid = Some gm\<close> \<open>hasApiKey cfg\<close> d False rl None
          have "s' = s0\<lparr>games := AList.update gid gm0 (games s0)\<rparr>"
            by (simp add: selectQuestions_def)
          with pool_frame [OF p] rf df \<open>map_of (games s) gid = Some gm\<close> show ?thesis by auto
        qed
      qed
    qed
  qed
  then show "set (globalUsedQuestions s) \<subseteq> set (globalUsedQuestions s')"
    and "set (questionCache s) \<subseteq> set (globalUsedQuestions s)
         \<Longrightarrow> set (questionCache s') \<subseteq> set (globalUsedQuestions s')"
    and "map_of (games s) gid = None \<Longrightarrow> games s' = games s"
    and "map_of (games s) gid = Some gm
         \<Longrightarrow> \<exists>u. games s' = AList.update gid (gm\<lparr>usedQuestions := u\<rparr>) (games s)"
    by auto
qed

section \<open>The invariants hold in every reachable state\<close>

lemma roomInv_used [simp]: "roomInv (gm\<lparr>usedQuestions := u\<rparr>) = roomInv gm"
  by (simp add: roomInv_def)

lemma roomInv_newGame: "roomInv (newGame playerName)"
  by (simp add: roomInv_def newGame_def)

lemma roomInv_assigned:
  "roomInv gm \<Longrightarrow> permuting sh \<Longrightarrow>
   roomInv (gm\<lparr>usedQuestions := u, questionAssignments := qa, rankings := [],
               rankers := sh (players gm), currentRevealIndex := 0\<rparr>)"
  by (simp add: roomInv_def permuting_def)

lemma serverInv_update:
  assumes "serverInv s" and "games s' = AList.update gid gm' (games s)" and "roomInv gm'"
    and "set (questionCache s') \<subseteq> set (globalUsedQuestions s')"
  shows "serverInv s'"
  using assms by (auto simp: serverInv_def distinct_update update_conv' split: if_splits)

lemma serverInv_room: "serverInv s \<Longrightarrow> map_of (games s) gid = Some gm \<Longrightarrow> roomInv gm"
  by (auto simp: serverInv_def)

lemma serverInv_cache:
  "serverInv s \<Longrightarrow> set (questionCache s) \<subseteq> set (globalUsedQuestions s)"
  by (auto simp: serverInv_def)

lemma assign_frame:
  assumes "assignQuestions cfg r gid s = Some (ok, s', outs)"
    and "map_of (games s) gid = Some gm"
  shows "set (globalUsedQuestions s) \<subseteq> set (globalUsedQuestions s')"
    and "set (questionCache s) \<subseteq> set (globalUsedQuestions s)
         \<Longrightarrow> set (questionCache s') \<subseteq> set (globalUsedQuestions s')"
    and "\<exists>u qa. games s' = AList.update gid
           (if ok then gm\<lparr>usedQuestions := u, questionAssignments := qa, rankings := [],
                          rankers := shuffleRankers r (players gm), currentRevealIndex := 0\<rparr>
            else gm\<lparr>usedQuestions := u\<rparr>) (games s)"
proof -
  obtain qs s1 outs1 where
    sq: "selectQuestions cfg r gid (length (players gm)) s = (qs, s1, outs1)"
    by (cases "selectQuestions cfg r gid (length (players gm)) s") auto
  from select_frame(4) [OF sq assms(2)] obtain u where
    g1: "games s1 = AList.update gid (gm\<lparr>usedQuestions := u\<rparr>) (games s)" by auto
  then have l1: "map_of (games s1) gid = Some (gm\<lparr>usedQuestions := u\<rparr>)"
    by (simp add: update_conv')
  have "set (globalUsedQuestions s) \<subseteq> set (globalUsedQuestions s')
     \<and> (set (questionCache s) \<subseteq> set (globalUsedQuestions s)
         \<longrightarrow> set (questionCache s') \<subseteq> set (globalUsedQuestions s'))
     \<and> (\<exists>u qa. games s' = AList.update gid
           (if ok then gm\<lparr>usedQuestions := u, questionAssignments := qa, rankings := [],
                          rankers := shuffleRankers r (players gm), currentRevealIndex := 0\<rparr>
            else gm\<lparr>usedQuestions := u\<rparr>) (games s))"
  proof (cases "length qs < length (players gm)")
    case True
    with assms sq have "ok = False" "s' = s1"
      by (auto simp: assignQuestions_def)
    with select_frame(1,2) [OF sq] g1 show ?thesis by auto
  next
    case False
    with assms sq l1 have ok: "ok = True"
      and s': "s' = s1\<lparr>games := AList.update gid
            (gm\<lparr>usedQuestions := u,
                questionAssignments := assignEach (players gm) (shuffleQuestions r qs) [],
                rankings := [], rankers := shuffleRankers r (players gm),
                currentRevealIndex := 0\<rparr>) (games s1)\<rparr>"
      by (auto simp: assignQuestions_def)
    from s' g1 have "games s' = AList.update gid
            (gm\<lparr>usedQuestions := u,
                questionAssignments := assignEach (players gm) (shuffleQuestions r qs) [],
                rankings := [], rankers := shuffleRankers r (players gm),
                currentRevealIndex := 0\<rparr>) (games s)"
      by simp
    with ok select_frame(1,2) [OF sq] s' show ?thesis by auto
  qed
  then show "set (globalUsedQuestions s) \<subseteq> set (globalUsedQuestions s')"
    and "set (questionCache s) \<subseteq> set (globalUsedQuestions s)
         \<Longrightarrow> set (questionCache s') \<subseteq> set (globalUsedQuestions s')"
    and "\<exists>u qa. games s' = AList.update gid
           (if ok then gm\<lparr>usedQuestions := u, questionAssignments := qa, rankings := [],
                          rankers := shuffleRankers r (players gm), currentRevealIndex := 0\<rparr>
            else gm\<lparr>usedQuestions := u\<rparr>) (games s)"
    by auto
qed

lemma assign_inv:
  assumes "serverInv s" and "validRnd r" and "assignQuestions cfg r gid s = Some (ok, s', outs)"
  shows "serverInv s'"
proof -
  from assms(3) obtain gm where gm: "map_of (games s) gid = Some gm"
    by (auto simp: assignQuestions_def split: option.splits)
  from assign_frame(3) [OF assms(3) gm] obtain u qa where
    g: "games s' = AList.update gid
           (if ok then gm\<lparr>usedQuestions := u, questionAssignments := qa, rankings := [],
                          rankers := shuffleRankers r (players gm), currentRevealIndex := 0\<rparr>
            else gm\<lparr>usedQuestions := u\<rparr>) (games s)" by blast
  have p: "permuting (shuffleRankers r)" using assms(2) by (simp add: validRnd_def)
  have "roomInv (if ok then gm\<lparr>usedQuestions := u, questionAssignments := qa, rankings := [],
                          rankers := shuffleRankers r (players gm), currentRevealIndex := 0\<rparr>
            else gm\<lparr>usedQuestions := u\<rparr>)"
    using serverInv_room [OF assms(1) gm] roomInv_assigned [OF _ p] by simp
  from serverInv_update [OF assms(1) g this]
    assign_frame(2) [OF assms(3) gm serverInv_cache [OF assms(1)]]
  show ?thesis .
qed

lemma mset_sortByPoints [simp]: "mset (sortByPoints pts ps) = mset ps"
  by (simp add: sortByPoints_def)

lemma set_sortByPoints [simp]: "set (sortByPoints pts ps) = set ps"
  by (simp add: sortByPoints_def)

lemma distinct_sortByPoints [simp]: "distinct (sortByPoints pts ps) = distinct ps"
  by (simp add: sortByPoints_def)

lemma length_sortByPoints [simp]: "length (sortByPoints pts ps) = length ps"
  by (simp add: sortByPoints_def)

lemma createGame_inv: "serverInv s \<Longrightarrow> serverInv (fst (createGame s playerName gid))"
  by (rule serverInv_update [where gid = gid and gm' = "newGame playerName"])
     (auto simp: createGame_def roomInv_newGame serverInv_def)

lemma roomInv_joined:
  "roomInv gm \<Longrightarrow> playerName \<notin> set (players gm) \<Longrightarrow>
   roomInv (gm\<lparr>players := players gm @ [playerName], points := pts, state := Waiting\<rparr>)"
  by (simp add: roomInv_def)

lemma lookupProp_Own: "(lookupProp ob k = Own v) = (map_of ob k = Some v)"
  by (simp add: lookupProp_def split: option.splits)

lemma lookupProp_cases:
  obtains (own) v where "map_of ob k = Some v" and "lookupProp ob k = Own v"
  | (inherited) "map_of ob k = None" and "k \<in> set objectPrototypeKeys"
      and "lookupProp ob k = Inherited"
  | (missing) "map_of ob k = None" and "k \<notin> set objectPrototypeKeys"
      and "lookupProp ob k = Missing"
  by (cases "map_of ob k") (auto simp: lookupProp_def)

lemma joinGame_inv:
  assumes inv: "serverInv s" and j: "joinGame s gid playerName = Some (s', outs)"
  shows "serverInv s'"
proof (cases rule: lookupProp_cases [of "games s" gid])
  case (own gm)
  show ?thesis
  proof (cases "playerName \<in> set (players gm)")
    case True
    with own j have "s' = s" by (simp add: joinGame_def)
    with inv show ?thesis by simp
  next
    case False
    let ?gm' = "gm\<lparr>players := players gm @ [playerName],
                  points := assignNumber playerName 0 (points gm), state := Waiting\<rparr>"
    from own False j have s': "s' = s\<lparr>games := AList.update gid ?gm' (games s)\<rparr>"
      by (simp add: joinGame_def Let_def)
    have g: "games s' = AList.update gid ?gm' (games s)"
      and c: "set (questionCache s') \<subseteq> set (globalUsedQuestions s')"
      using s' serverInv_cache [OF inv] by simp_all
    show ?thesis
      by (rule serverInv_update [OF inv g roomInv_joined [OF serverInv_room [OF inv own(1)] False] c])
  qed
next
  case inherited
  with j show ?thesis by (simp add: joinGame_def)
next
  case missing
  with j have "s' = s" by (simp add: joinGame_def)
  with inv show ?thesis by simp
qed

lemma roomInv_started:
  "roomInv gm \<Longrightarrow> permuting sh \<Longrightarrow>
   roomInv (gm\<lparr>usedQuestions := u, questionAssignments := qa, rankings := [],
               rankers := sh (players gm), currentRevealIndex := 0, state := Ranking\<rparr>)"
  by (simp add: roomInv_def permuting_def)

lemma roomInv_newRound:
  "roomInv gm \<Longrightarrow> permuting sh \<Longrightarrow>
   roomInv (gm\<lparr>usedQuestions := u, questionAssignments := qa, rankings := [],
               rankers := sh (players gm), currentRevealIndex := 0, state := Ranking,
               rankings := [], currentRanker := Null, currentTarget := Null,
               currentQuestion := None, currentGuesses := [], actualPosition := None,
               currentFullRanking := None\<rparr>)"
  by (simp add: roomInv_def permuting_def)

lemma startGame_inv:
  assumes inv: "serverInv s" and r: "validRnd r"
    and st: "startGame cfg r s me gid = Some (s', outs)"
  shows "serverInv s'"
proof (cases "map_of (games s) gid")
  case None
  with st inv show ?thesis by (simp add: startGame_def Let_def)
next
  case (Some gm0)
  show ?thesis
  proof (cases "Some (owner gm0) = me")
    case False
    with Some st inv show ?thesis by (simp add: startGame_def Let_def)
  next
    case True
    with Some st obtain ok s1 outs1 where
      a: "assignQuestions cfg r gid s = Some (ok, s1, outs1)"
      by (auto simp: startGame_def split: option.splits)
    have inv1: "serverInv s1" by (rule assign_inv [OF inv r a])
    from assign_frame(3) [OF a Some] obtain u qa where
      g1: "games s1 = AList.update gid
           (if ok then gm0\<lparr>usedQuestions := u, questionAssignments := qa, rankings := [],
                          rankers := shuffleRankers r (players gm0), currentRevealIndex := 0\<rparr>
            else gm0\<lparr>usedQuestions := u\<rparr>) (games s)" by blast
    show ?thesis
    proof (cases ok)
      case False
      with Some True st a inv1 show ?thesis by (simp add: startGame_def Let_def)
    next
      case ok: True
      let ?gm = "gm0\<lparr>usedQuestions := u, questionAssignments := qa, rankings := [],
                     rankers := shuffleRankers r (players gm0), currentRevealIndex := 0\<rparr>"
      from g1 ok have l1: "map_of (games s1) gid = Some ?gm" by (simp add: update_conv')
      with Some True st a ok
      have s': "s' = s1\<lparr>games := AList.update gid (?gm\<lparr>state := Ranking\<rparr>) (games s1)\<rparr>"
        by (simp add: startGame_def Let_def)
      have p: "permuting (shuffleRankers r)" using r by (simp add: validRnd_def)
      have ri: "roomInv (?gm\<lparr>state := Ranking\<rparr>)"
        using roomInv_started [OF serverInv_room [OF inv Some] p] by simp
      have g: "games s' = AList.update gid (?gm\<lparr>state := Ranking\<rparr>) (games s1)"
        and c: "set (questionCache s') \<subseteq> set (globalUsedQuestions s')"
        using s' serverInv_cache [OF inv1] by auto
      show ?thesis by (rule serverInv_update [OF inv1 g ri c])
    qed
  qed
qed

lemma startNewRound_inv:
  assumes inv: "serverInv s" and r: "validRnd r"
    and st: "startNewRound cfg r gid s = Some (s', outs)"
  shows "serverInv s'"
proof -
  from st obtain ok s1 outs1 where
    a: "assignQuestions cfg r gid s = Some (ok, s1, outs1)"
    by (auto simp: startNewRound_def split: option.splits)
  then obtain gm0 where Some: "map_of (games s) gid = Some gm0"
    by (auto simp: assignQuestions_def split: option.splits)
  have inv1: "serverInv s1" by (rule assign_inv [OF inv r a])
  from assign_frame(3) [OF a Some] obtain u qa where
    g1: "games s1 = AList.update gid
         (if ok then gm0\<lparr>usedQuestions := u, questionAssignments := qa, rankings := [],
                        rankers := shuffleRankers r (players gm0), currentRevealIndex := 0\<rparr>
          else gm0\<lparr>usedQuestions := u\<rparr>) (games s)" by blast
  show ?thesis
  proof (cases ok)
    case False
    with st a inv1 show ?thesis by (auto simp: startNewRound_def split: option.splits)
  next
    case ok: True
    let ?gm = "gm0\<lparr>usedQuestions := u, questionAssignments := qa, rankings := [],
                   rankers := shuffleRankers r (players gm0), currentRevealIndex := 0\<rparr>"
    let ?gm' = "?gm\<lparr>state := Ranking, rankings := [], currentRanker := Null,
                  currentTarget := Null, currentQuestion := None, currentGuesses := [],
                  actualPosition := None, currentFullRanking := None\<rparr>"
    from g1 ok have l1: "map_of (games s1) gid = Some ?gm" by (simp add: update_conv')
    with st a ok
    have s': "s' = s1\<lparr>games := AList.update gid ?gm' (games s1)\<rparr>"
      by (simp add: startNewRound_def Let_def)
    have p: "permuting (shuffleRankers r)" using r by (simp add: validRnd_def)
    have ri: "roomInv ?gm'"
      using roomInv_newRound [OF serverInv_room [OF inv Some] p] by simp
    have g: "games s' = AList.update gid ?gm' (games s1)"
      and c: "set (questionCache s') \<subseteq> set (globalUsedQuestions s')"
      using s' serverInv_cache [OF inv1] by auto
    show ?thesis by (rule serverInv_update [OF inv1 g ri c])
  qed
qed

lemma roomInv_guessing:
  assumes "roomInv gm" and "mset (rankers gm) = mset (players gm)"
    and "currentRevealIndex gm < length (players gm)"
  shows "roomInv (gm\<lparr>currentRanker := Str (rankers gm ! currentRevealIndex gm),
           currentTarget := t, currentQuestion := q, currentGuesses := [],
           actualPosition := a, currentFullRanking := None, state := Guessing\<rparr>)"
proof -
  from assms(2) have "length (rankers gm) = length (players gm)"
    and "set (rankers gm) = set (players gm)"
    by (auto dest: mset_eq_length mset_eq_setD)
  with assms(3) have "rankers gm ! currentRevealIndex gm \<in> set (players gm)"
    by (metis nth_mem)
  with assms show ?thesis by (auto simp: roomInv_def)
qed

lemma setNextReveal_inv:
  assumes inv: "serverInv s" and r: "validRnd r"
    and gm: "map_of (games s) gid = Some gm"
    and perm: "mset (rankers gm) = mset (players gm)"
    and st: "setNextReveal cfg r gid s = Some (s', outs)"
  shows "serverInv s'"
proof (cases "currentRevealIndex gm \<ge> length (players gm)")
  case True
  with st gm have "startNewRound cfg r gid s = Some (s', outs)"
    by (simp add: setNextReveal_def)
  from startNewRound_inv [OF inv r this] show ?thesis .
next
  case False
  from perm have len: "length (rankers gm) = length (players gm)"
    by (rule mset_eq_length)
  with False st gm obtain ranking where
    s': "s' = s\<lparr>games := AList.update gid
          (gm\<lparr>currentRanker := Str (rankers gm ! currentRevealIndex gm),
              currentTarget := Str (players gm ! (randomIndex r mod length (players gm))),
              currentQuestion := map_of (questionAssignments gm) (rankers gm ! currentRevealIndex gm),
              currentGuesses := [],
              actualPosition := Some (indexOf ranking
                 (Str (players gm ! (randomIndex r mod length (players gm)))) + 1),
              currentFullRanking := None, state := Guessing\<rparr>) (games s)\<rparr>"
    by (auto simp: setNextReveal_def Let_def split: option.splits)
  from False have "currentRevealIndex gm < length (players gm)" by simp
  note ri = roomInv_guessing [OF serverInv_room [OF inv gm] perm this]
  have c: "set (questionCache s') \<subseteq> set (globalUsedQuestions s')"
    using s' serverInv_cache [OF inv] by auto
  show ?thesis
    by (rule serverInv_update [OF inv _ ri c]) (simp add: s')
qed

lemma roomInv_rankings [simp]: "roomInv (gm\<lparr>rankings := x\<rparr>) = roomInv gm"
  by (simp add: roomInv_def)

lemma roomInv_index [simp]: "roomInv (gm\<lparr>currentRevealIndex := i\<rparr>) = roomInv gm"
  by (simp add: roomInv_def)

lemma submitRanking_inv:
  assumes inv: "serverInv s" and r: "validRnd r"
    and st: "submitRanking cfg r s me gid ranking = Some (s', outs)"
  shows "serverInv s'"
proof (cases "\<exists>gm playerName. map_of (games s) gid = Some gm \<and> me = Some playerName
    \<and> playerName \<in> set (players gm) \<and> state gm = Ranking
    \<and> length ranking = length (players gm)
    \<and> list_all (\<lambda>p. p \<in> set (players gm)) ranking")
  case False
  with st have "s' = s"
    by (auto simp: submitRanking_def split: option.splits if_splits)
  with inv show ?thesis by simp
next
  case True
  then obtain gm playerName where gm: "map_of (games s) gid = Some gm"
    and me: "me = Some playerName" "playerName \<in> set (players gm)" "state gm = Ranking"
      "length ranking = length (players gm)" "list_all (\<lambda>p. p \<in> set (players gm)) ranking"
    by blast
  let ?gm1 = "gm\<lparr>rankings := AList.update playerName ranking (rankings gm)\<rparr>"
  let ?s1 = "s\<lparr>games := AList.update gid ?gm1 (games s)\<rparr>"
  have ri: "roomInv ?gm1" using serverInv_room [OF inv gm] by simp
  have inv1: "serverInv ?s1"
    by (rule serverInv_update [OF inv _ ri]) (use serverInv_cache [OF inv] in auto)
  have l1: "map_of (games ?s1) gid = Some ?gm1" by (simp add: update_conv')
  show ?thesis
  proof (cases "length (map fst (rankings ?gm1)) = length (players ?gm1)")
    case False
    with st gm me have "s' = ?s1" by (simp add: submitRanking_def Let_def)
    with inv1 show ?thesis by simp
  next
    case True
    with st gm me obtain outs2 where
      n: "setNextReveal cfg r gid ?s1 = Some (s', outs2)"
      by (auto simp: submitRanking_def Let_def split: option.splits)
    have "mset (rankers ?gm1) = mset (players ?gm1)"
      using serverInv_room [OF inv gm] me(3) by (simp add: roomInv_def)
    from setNextReveal_inv [OF inv1 r l1 this n] show ?thesis .
  qed
qed

lemma nextReveal_inv:
  assumes inv: "serverInv s" and r: "validRnd r"
    and st: "nextReveal cfg r s me gid = Some (s', outs)"
  shows "serverInv s'"
proof (cases "\<exists>gm. map_of (games s) gid = Some gm \<and> Some (owner gm) = me \<and> state gm = Reveal")
  case False
  with st have "s' = s"
    by (auto simp: nextReveal_def split: option.splits if_splits)
  with inv show ?thesis by simp
next
  case True
  then obtain gm where gm: "map_of (games s) gid = Some gm"
    and me: "Some (owner gm) = me" "state gm = Reveal" by blast
  let ?gm1 = "gm\<lparr>currentRevealIndex := currentRevealIndex gm + 1\<rparr>"
  let ?s1 = "s\<lparr>games := AList.update gid ?gm1 (games s)\<rparr>"
  have ri: "roomInv ?gm1" using serverInv_room [OF inv gm] by simp
  have inv1: "serverInv ?s1"
    by (rule serverInv_update [OF inv _ ri]) (use serverInv_cache [OF inv] in auto)
  have l1: "map_of (games ?s1) gid = Some ?gm1" by (simp add: update_conv')
  from st gm me have n: "setNextReveal cfg r gid ?s1 = Some (s', outs)"
    by (simp add: nextReveal_def Let_def)
  have "mset (rankers ?gm1) = mset (players ?gm1)"
    using serverInv_room [OF inv gm] me(2) by (simp add: roomInv_def)
  from setNextReveal_inv [OF inv1 r l1 this n] show ?thesis .
qed

lemma length_filter_others:
  assumes "distinct ps" and "r \<in> set ps"
  shows "length (filter (\<lambda>p. Str p \<noteq> Str r) ps) = length ps - 1"
proof -
  have "length (filter (\<lambda>p. Str p \<noteq> Str r) ps) = card ({p. Str p \<noteq> Str r} \<inter> set ps)"
    using assms(1) by (rule distinct_length_filter)
  also have "{p. Str p \<noteq> Str r} \<inter> set ps = set ps - {r}" by auto
  also have "card (set ps - {r}) = length ps - 1"
    using assms by (simp add: distinct_card)
  finally show ?thesis .
qed

lemma length_keys_others:
  assumes "distinct ks" and "set ks \<subseteq> set ps - {r}" and "distinct ps" and "r \<in> set ps"
  shows "length ks \<le> length ps - 1"
proof -
  have "length ks = card (set ks)" using assms(1) by (simp add: distinct_card)
  also have "\<dots> \<le> card (set ps - {r})" using assms(2) by (intro card_mono) auto
  also have "\<dots> = length ps - 1" using assms(3,4) by (simp add: distinct_card)
  finally show ?thesis .
qed

lemma points_awardPoints_frame:
  "players (awardPoints gm) = sortByPoints (points (awardPoints gm)) (players gm)
   \<and> state (awardPoints gm) = Reveal
   \<and> currentGuesses (awardPoints gm) = currentGuesses gm
   \<and> currentRanker (awardPoints gm) = currentRanker gm
   \<and> rankers (awardPoints gm) = rankers gm
   \<and> noMoreQuestions (awardPoints gm) = noMoreQuestions gm
   \<and> actualPosition (awardPoints gm) = actualPosition gm
   \<and> rankings (awardPoints gm) = rankings gm"
  by (simp add: awardPoints_def Let_def)

lemma roomInv_scored:
  assumes "roomInv gm" and "state gm = Guessing" and "Str playerName \<noteq> currentRanker gm"
  shows "roomInv (awardPoints
           (gm\<lparr>currentGuesses := AList.update playerName guess (currentGuesses gm)\<rparr>))"
  using assms
  by (auto simp: roomInv_def points_awardPoints_frame distinct_update dom_update)

lemma roomInv_guessed:
  assumes ri: "roomInv gm" and st: "state gm = Guessing"
    and nr: "Str playerName \<noteq> currentRanker gm" and pl: "playerName \<in> set (players gm)"
    and ne: "length (map fst (AList.update playerName guess (currentGuesses gm)))
             \<noteq> length (filter (\<lambda>p. Str p \<noteq> currentRanker gm) (players gm))"
  shows "roomInv (gm\<lparr>currentGuesses := AList.update playerName guess (currentGuesses gm)\<rparr>)"
proof -
  from ri st obtain rk where rk: "currentRanker gm = Str rk" "rk \<in> set (players gm)"
    by (auto simp: roomInv_def)
  let ?g = "AList.update playerName guess (currentGuesses gm)"
  have d: "distinct (map fst ?g)" using ri by (simp add: roomInv_def distinct_update)
  have sub: "set (map fst ?g) \<subseteq> set (players gm) - {rk}"
    using ri st nr pl rk by (auto simp: roomInv_def dom_update)
  have dp: "distinct (players gm)" using ri by (simp add: roomInv_def)
  from length_keys_others [OF d sub dp rk(2)] ne rk length_filter_others [OF dp rk(2)]
  have "length ?g < length (players gm) - 1" by simp
  with ri st nr pl d sub show ?thesis
    by (auto simp: roomInv_def dom_update)
qed

lemma submitGuess_inv:
  assumes inv: "serverInv s"
  shows "serverInv (fst (submitGuess s me gid guess))"
proof (cases "\<exists>gm playerName. map_of (games s) gid = Some gm \<and> me = Some playerName
    \<and> playerName \<in> set (players gm) \<and> state gm = Guessing
    \<and> Str playerName \<noteq> currentRanker gm \<and> \<not> (guess < 1 \<or> guess > int (length (players gm)))")
  case False
  then have "fst (submitGuess s me gid guess) = s"
    by (auto simp: submitGuess_def split: option.splits if_splits)
  with inv show ?thesis by simp
next
  case True
  then obtain gm playerName where gm: "map_of (games s) gid = Some gm"
    and me: "me = Some playerName" "playerName \<in> set (players gm)" "state gm = Guessing"
      "Str playerName \<noteq> currentRanker gm" "\<not> (guess < 1 \<or> guess > int (length (players gm)))"
    by blast
  let ?gm1 = "gm\<lparr>currentGuesses := AList.update playerName guess (currentGuesses gm)\<rparr>"
  note ri = serverInv_room [OF inv gm]
  show ?thesis
  proof (cases "length (map fst (currentGuesses ?gm1))
      = length (filter (\<lambda>p. Str p \<noteq> currentRanker ?gm1) (players ?gm1))")
    case True
    with gm me have s': "fst (submitGuess s me gid guess)
        = s\<lparr>games := AList.update gid (awardPoints ?gm1) (games s)\<rparr>"
      by (simp add: submitGuess_def Let_def)
    show ?thesis unfolding s'
      by (rule serverInv_update [OF inv _ roomInv_scored [OF ri me(3,4)]])
         (use serverInv_cache [OF inv] in auto)
  next
    case False
    with gm me have s': "fst (submitGuess s me gid guess)
        = s\<lparr>games := AList.update gid ?gm1 (games s)\<rparr>"
      by (simp add: submitGuess_def Let_def)
    from False have "length (map fst (AList.update playerName guess (currentGuesses gm)))
             \<noteq> length (filter (\<lambda>p. Str p \<noteq> currentRanker gm) (players gm))" by simp
    note ri1 = roomInv_guessed [OF ri me(3,4,2) this]
    show ?thesis unfolding s'
      by (rule serverInv_update [OF inv _ ri1]) (use serverInv_cache [OF inv] in auto)
  qed
qed

lemma leaveGame_Some:
  assumes "leaveGame playerName gm = Some gm'"
  shows "gm' = gm\<lparr>players := sortByPoints (AList.delete playerName (points gm))
                              (remove1 playerName (players gm)),
                  points := AList.delete playerName (points gm),
                  questionAssignments := AList.delete playerName (questionAssignments gm),
                  rankings := AList.delete playerName (rankings gm),
                  state := (if length (remove1 playerName (players gm)) > 1
                            then Waiting else Joining)\<rparr>"
    and "remove1 playerName (players gm) \<noteq> []"
  using assms by (auto simp: leaveGame_def Let_def split: if_splits)

lemma roomInv_left:
  assumes "roomInv gm" and "leaveGame playerName gm = Some gm'"
  shows "roomInv gm'"
  unfolding leaveGame_Some(1) [OF assms(2)]
  using assms(1) by (simp add: roomInv_def)

lemma keys_disconnectAll: "set (map fst (fst (disconnectAll me al))) \<subseteq> set (map fst al)"
proof (induction al)
  case Nil
  then show ?case by simp
next
  case (Cons a al)
  obtain gameId gm where a: "a = (gameId, gm)" by (cases a)
  show ?case
  proof (cases me)
    case None
    with Cons a show ?thesis by auto
  next
    case (Some playerName)
    with Cons a show ?thesis
      by (cases "leaveGame playerName gm") auto
  qed
qed

lemma distinct_disconnectAll:
  "distinct (map fst al) \<Longrightarrow> distinct (map fst (fst (disconnectAll me al)))"
proof (induction al)
  case Nil
  then show ?case by simp
next
  case (Cons a al)
  obtain gameId gm where a: "a = (gameId, gm)" by (cases a)
  have k: "gameId \<notin> set (map fst (fst (disconnectAll me al)))"
    using keys_disconnectAll [of me al] Cons.prems a by auto
  from Cons a have d: "distinct (map fst (fst (disconnectAll me al)))" by simp
  show ?case
  proof (cases me)
    case None
    with d k a show ?thesis by simp
  next
    case (Some playerName)
    with d k a show ?thesis
      by (cases "leaveGame playerName gm") simp_all
  qed
qed

lemma map_of_disconnectAll:
  "distinct (map fst al) \<Longrightarrow>
   map_of (fst (disconnectAll me al)) gid =
     (case map_of al gid of
        None \<Rightarrow> None
      | Some gm \<Rightarrow>
         (case me of
            None \<Rightarrow> Some gm
          | Some playerName \<Rightarrow>
             if playerName \<in> set (players gm) then leaveGame playerName gm else Some gm))"
proof (induction al)
  case Nil
  then show ?case by simp
next
  case (Cons a al)
  obtain gameId gm where a: "a = (gameId, gm)" by (cases a)
  from Cons.prems a have n: "map_of al gameId = None"
    by (simp add: map_of_eq_None_iff)
  from Cons a have ih: "map_of (fst (disconnectAll me al)) gid =
     (case map_of al gid of
        None \<Rightarrow> None
      | Some gm \<Rightarrow>
         (case me of
            None \<Rightarrow> Some gm
          | Some playerName \<Rightarrow>
             if playerName \<in> set (players gm) then leaveGame playerName gm else Some gm))"
    by simp
  show ?case
  proof (cases me)
    case None
    with ih a show ?thesis by simp
  next
    case (Some playerName)
    show ?thesis
    proof (cases "gid = gameId")
      case True
      with ih n Some a show ?thesis
        by (cases "leaveGame playerName gm") simp_all
    next
      case False
      with ih Some a show ?thesis
        by (cases "leaveGame playerName gm") simp_all
    qed
  qed
qed

lemma disconnect_inv:
  assumes inv: "serverInv s"
  shows "serverInv (fst (disconnect s me))"
proof -
  have d: "distinct (map fst (games s))" using inv by (simp add: serverInv_def)
  have ri: "roomInv gm'" if l: "map_of (fst (disconnectAll me (games s))) gid = Some gm'"
    for gid gm'
  proof -
    from l obtain gm where gm: "map_of (games s) gid = Some gm"
      and c: "(case me of None \<Rightarrow> Some gm
          | Some playerName \<Rightarrow>
             if playerName \<in> set (players gm) then leaveGame playerName gm else Some gm)
          = Some gm'"
      unfolding map_of_disconnectAll [OF d] by (cases "map_of (games s) gid") simp_all
    note r0 = serverInv_room [OF inv gm]
    show ?thesis
    proof (cases me)
      case None
      with c r0 show ?thesis by simp
    next
      case (Some playerName)
      with c r0 roomInv_left [OF r0, of playerName gm'] show ?thesis
        by (cases "playerName \<in> set (players gm)") simp_all
    qed
  qed
  have "distinct (map fst (games (fst (disconnect s me))))"
    using distinct_disconnectAll [OF d] by (simp add: disconnect_def)
  moreover have "set (questionCache (fst (disconnect s me)))
      \<subseteq> set (globalUsedQuestions (fst (disconnect s me)))"
    using serverInv_cache [OF inv] by (simp add: disconnect_def)
  moreover have "\<forall>gameId gm. map_of (games (fst (disconnect s me))) gameId = Some gm
      \<longrightarrow> roomInv gm"
    using ri by (simp add: disconnect_def)
  ultimately show ?thesis unfolding serverInv_def by blast
qed

lemma step_inv:
  assumes "serverInv s" and "validRnd r" and "step cfg r s ev = Some (s', outs)"
  shows "serverInv s'"
proof (cases ev)
  case (CreateGame playerName gameId)
  with assms createGame_inv [OF assms(1), of playerName gameId] show ?thesis by auto
next
  case (JoinGame gameId playerName)
  with assms show ?thesis by (auto intro: joinGame_inv)
next
  case (StartGame me gameId)
  with assms show ?thesis by (auto intro: startGame_inv)
next
  case (SubmitRanking me gameId ranking)
  with assms show ?thesis by (auto intro: submitRanking_inv)
next
  case (SubmitGuess me gameId guess)
  with assms submitGuess_inv [OF assms(1), of me gameId guess] show ?thesis by auto
next
  case (NextReveal me gameId)
  with assms show ?thesis by (auto intro: nextReveal_inv)
next
  case (Disconnect me)
  with assms disconnect_inv [OF assms(1), of me] show ?thesis by auto
qed

lemma serverInv_initial: "serverInv initialServer"
  by (simp add: serverInv_def initialServer_def)

lemma reachable_inv: "reachable cfg s \<Longrightarrow> serverInv s"
  by (induction rule: reachable.induct) (auto intro: serverInv_initial step_inv)

lemma run_reachable:
  "reachable cfg s \<Longrightarrow> list_all (\<lambda>(r, ev). validRnd r) evs \<Longrightarrow> run cfg s evs = Some (s', outs)
   \<Longrightarrow> reachable cfg s'"
proof (induction evs arbitrary: s outs)
  case Nil
  then show ?case by simp
next
  case (Cons a evs)
  obtain r ev where a: "a = (r, ev)" by (cases a)
  from Cons.prems(3) a obtain s1 outs1 outs2 where
    st: "step cfg r s ev = Some (s1, outs1)" and ru: "run cfg s1 evs = Some (s', outs2)"
    by (auto split: option.splits)
  from Cons.prems(2) a have v: "validRnd r" "list_all (\<lambda>(r, ev). validRnd r) evs" by auto
  from reachable_step [OF Cons.prems(1) v(1) st] have "reachable cfg s1" .
  from Cons.IH [OF this v(2) ru] show ?case .
qed

section \<open>Concrete runs are reachable\<close>

lemma validRnd_exampleRnd: "validRnd exampleRnd"
  by (simp add: validRnd_def permuting_def exampleRnd_def)

lemma stateAfter_reachable:
  assumes "run cfg initialServer evs \<noteq> None" and "list_all (\<lambda>(r, ev). validRnd r) evs"
  shows "reachable cfg (stateAfter cfg evs)"
proof -
  from assms(1) obtain s outs where r: "run cfg initialServer evs = Some (s, outs)" by auto
  from run_reachable [OF reachable_init assms(2) r] r show ?thesis
    by (simp add: stateAfter_def)
qed

lemma reachable_room: "reachable cfg s \<Longrightarrow> roomOf s gameId = Some gm \<Longrightarrow> roomInv gm"
  by (auto simp: roomOf_def dest: reachable_inv serverInv_room)

lemma valid_twoPlayersStarted: "list_all (\<lambda>(r, ev). validRnd r) twoPlayersStarted"
  by (simp add: twoPlayersStarted_def validRnd_exampleRnd)

lemma valid_twoPlayersGuessing: "list_all (\<lambda>(r, ev). validRnd r) twoPlayersGuessing"
  using valid_twoPlayersStarted by (simp add: twoPlayersGuessing_def validRnd_exampleRnd)

lemma valid_twoPlayersRevealed: "list_all (\<lambda>(r, ev). validRnd r) twoPlayersRevealed"
  using valid_twoPlayersGuessing by (simp add: twoPlayersRevealed_def validRnd_exampleRnd)

lemma reachable_twoPlayersGuessing:
  "reachable exampleConfig (stateAfter exampleConfig twoPlayersGuessing)"
proof (rule stateAfter_reachable [OF _ valid_twoPlayersGuessing])
  show "run exampleConfig initialServer twoPlayersGuessing \<noteq> None" by code_simp
qed

lemma reachable_twoPlayersRevealed:
  "reachable exampleConfig (stateAfter exampleConfig twoPlayersRevealed)"
proof (rule stateAfter_reachable [OF _ valid_twoPlayersRevealed])
  show "run exampleConfig initialServer twoPlayersRevealed \<noteq> None" by code_simp
qed

section \<open>Joining a room\<close>

lemma assignNumber_entry:
  "playerName \<noteq> ''__proto__'' \<Longrightarrow> map_of (assignNumber playerName v pts) playerName = Some v"
  by (simp add: assignNumber_def update_conv')

lemma assignNumber_others:
  "p \<noteq> playerName \<Longrightarrow> map_of (assignNumber playerName v pts) p = map_of pts p"
  by (auto simp: assignNumber_def update_conv' split: option.splits)

lemma assignNumber_proto:
  "map_of pts ''__proto__'' = None \<Longrightarrow> assignNumber ''__proto__'' v pts = pts"
  by (simp add: assignNumber_def)

text \<open>
  \<open>joinGame\<close> looks at no phase. For a room that exists, whatever its phase, and a
  name that is not among its players, the join appends the player, sets the phase to
  \<open>waiting\<close> and broadcasts the room; the player gets a points entry of 0 when the name
  is not \<open>__proto__\<close>, and the points of the others are kept.
\<close>

lemma joinGame_joins:
  assumes "roomOf s gameId = Some gm" and "playerName \<notin> set (players gm)"
  shows "\<exists>gm'. joinGame s gameId playerName =
               Some (s\<lparr>games := AList.update gameId gm' (games s)\<rparr>,
                     [ToRoom gameId (GameState gm' None)])
         \<and> (\<forall>s' outs. joinGame s gameId playerName = Some (s', outs)
                \<longrightarrow> roomOf s' gameId = Some gm')
         \<and> players gm' = players gm @ [playerName]
         \<and> (playerName \<noteq> ''__proto__'' \<longrightarrow> map_of (points gm') playerName = Some 0)
         \<and> (\<forall>p. p \<noteq> playerName \<longrightarrow> map_of (points gm') p = map_of (points gm) p)
         \<and> state gm' = Waiting"
proof -
  from assms(1) have own: "lookupProp (games s) gameId = Own gm"
    by (simp add: lookupProp_Own roomOf_def)
  let ?gm' = "gm\<lparr>players := players gm @ [playerName],
                points := assignNumber playerName 0 (points gm), state := Waiting\<rparr>"
  have j: "joinGame s gameId playerName =
             Some (s\<lparr>games := AList.update gameId ?gm' (games s)\<rparr>,
                   [ToRoom gameId (GameState ?gm' None)])"
    using own assms(2) by (simp add: joinGame_def Let_def)
  have r: "\<forall>s' outs. joinGame s gameId playerName = Some (s', outs)
             \<longrightarrow> roomOf s' gameId = Some ?gm'"
    unfolding j by (auto simp: roomOf_def update_conv')
  have p: "playerName \<noteq> ''__proto__'' \<longrightarrow> map_of (points ?gm') playerName = Some 0"
    by (simp add: assignNumber_entry)
  have q: "\<forall>p. p \<noteq> playerName \<longrightarrow> map_of (points ?gm') p = map_of (points gm) p"
    by (simp add: assignNumber_others)
  have "players ?gm' = players gm @ [playerName]" and "state ?gm' = Waiting" by simp_all
  with j r p q show ?thesis by blast
qed

text \<open>
  An error is emitted exactly when the identifier is neither a room nor a name
  inherited from \<open>Object.prototype\<close>, or the name is taken, and then the server state
  is unchanged. At an inherited name that is no room the handler throws.
\<close>

lemma joinGame_rejects:
  "(\<exists>s' outs m. joinGame s gameId playerName = Some (s', outs) \<and> ToSocket (Error m) \<in> set outs)
     = ((roomOf s gameId = None \<and> gameId \<notin> set objectPrototypeKeys)
        \<or> (\<exists>g. roomOf s gameId = Some g \<and> playerName \<in> set (players g)))"
  by (cases rule: lookupProp_cases [of "games s" gameId])
    (auto simp: joinGame_def roomOf_def Let_def)

lemma joinGame_rejected_unchanged:
  "joinGame s gameId playerName = Some (s', outs) \<Longrightarrow> ToSocket (Error m) \<in> set outs \<Longrightarrow> s' = s"
  by (cases rule: lookupProp_cases [of "games s" gameId])
    (auto simp: joinGame_def Let_def split: if_splits)

lemma joinGame_throws:
  "(joinGame s gameId playerName = None)
     = (roomOf s gameId = None \<and> gameId \<in> set objectPrototypeKeys)"
  by (cases rule: lookupProp_cases [of "games s" gameId])
    (auto simp: joinGame_def roomOf_def Let_def)

text \<open>A third player joins while A and B are in the guessing phase.\<close>

lemma joinGame_while_guessing:
  "state (roomAfter exampleConfig twoPlayersGuessing ''g'') = Guessing
   \<and> map_option (\<lambda>(s, outs). map_option (\<lambda>gm. (players gm, points gm, state gm)) (roomOf s ''g''))
       (joinGame (stateAfter exampleConfig twoPlayersGuessing) ''g'' ''C'')
     = Some (Some ([''A'', ''B'', ''C''], [(''A'', 0), (''B'', 0), (''C'', 0)], Waiting))"
  by code_simp

text \<open>
  C10. The handler stores the points of a player who joins by \<open>points[playerName] = 0\<close>
  on a plain object. For the name \<open>__proto__\<close> this assignment creates no entry: with
  A and B in the guessing phase, the join of \<open>__proto__\<close> is accepted, the name is
  appended to the players and the phase becomes \<open>waiting\<close>, but the points hold no
  entry for the new player. The room is found by \<open>games[gameId]\<close> on a plain object as
  well: for the identifier \<open>constructor\<close>, which is no room, the handler throws
  instead of answering that the game is not found.
\<close>

theorem joinGame_proto_no_points:
  "map_option (\<lambda>(s, outs). map_option (\<lambda>gm. (players gm, points gm, state gm)) (roomOf s ''g''))
       (joinGame (stateAfter exampleConfig twoPlayersGuessing) ''g'' ''__proto__'')
     = Some (Some ([''A'', ''B'', ''__proto__''], [(''A'', 0), (''B'', 0)], Waiting))
   \<and> roomOf (stateAfter exampleConfig twoPlayersGuessing) ''constructor'' = None
   \<and> joinGame (stateAfter exampleConfig twoPlayersGuessing) ''constructor'' ''C'' = None"
  by code_simp

section \<open>Submitting a ranking\<close>

text \<open>
  A ranking of the wrong length, or one that holds a name that is not a player, is
  answered with an error to the sender and changes nothing.
\<close>

lemma submitRanking_rejects:
  assumes "roomOf s gameId = Some gm" and "playerName \<in> set (players gm)"
    and "state gm = Ranking"
    and "length ranking \<noteq> length (players gm) \<or> \<not> set ranking \<subseteq> set (players gm)"
  shows "submitRanking cfg r s (Some playerName) gameId ranking
           = Some (s, [ToSocket (Error ''Invalid ranking'')])"
  using assms by (auto simp: submitRanking_def roomOf_def list_all_iff)

text \<open>
  C8. The check of \<open>submitRanking\<close> compares the length and asks that every name be a
  player; it does not ask that the names differ. With the players A and B in the
  ranking phase, the ranking \<open>[A, A]\<close> of A is stored and acknowledged, and no error
  is emitted.
\<close>

theorem submitRanking_accepts_duplicate:
  "map_option (\<lambda>(s, outs). (map_option rankings (roomOf s ''g''), outs))
     (submitRanking exampleConfig exampleRnd (stateAfter exampleConfig twoPlayersStarted)
        (Some ''A'') ''g'' [''A'', ''A''])
   = Some (Some [(''A'', [''A'', ''A''])], [ToSocket RankingSubmitted])"
  by code_simp

section \<open>The position that is guessed\<close>

text \<open>
  When the ranker's ranking holds the target, \<open>actualPosition\<close> is one more than the
  index of the target, and lies between 1 and the length of the ranking.
\<close>

lemma indexFrom_range:
  "t \<in> Str ` set xs \<Longrightarrow> i \<le> indexFrom i xs t \<and> indexFrom i xs t < i + int (length xs)"
proof (induction xs arbitrary: i)
  case Nil
  then show ?case by simp
next
  case (Cons x xs)
  show ?case
  proof (cases "Str x = t")
    case True
    then show ?thesis by simp
  next
    case False
    with Cons.prems have "t \<in> Str ` set xs" by auto
    from Cons.IH [OF this, of "i + 1"] False show ?thesis by simp
  qed
qed

lemma indexFrom_absent: "t \<notin> Str ` set xs \<Longrightarrow> indexFrom i xs t = -1"
  by (induction xs arbitrary: i) auto

text \<open>
  What \<open>setNextReveal\<close> stores when it opens a reveal: one more than \<open>indexOf\<close> of the
  target in the ranker's ranking. That is a position of the ranking when the ranking
  holds the target, and 0 when it does not.
\<close>

lemma indexOf_range:
  "t \<in> Str ` set xs \<Longrightarrow> 1 \<le> indexOf xs t + 1 \<and> indexOf xs t + 1 \<le> int (length xs)"
  using indexFrom_range [of t xs 0] by (simp add: indexOf_def)

lemma indexOf_absent: "t \<notin> Str ` set xs \<Longrightarrow> indexOf xs t + 1 = 0"
  by (simp add: indexOf_def indexFrom_absent)

lemma setNextReveal_position:
  assumes "roomOf s gameId = Some gm" and "currentRevealIndex gm < length (players gm)"
    and "setNextReveal cfg r gameId s = Some (s', outs)"
  shows "\<exists>gm' ranking. roomOf s' gameId = Some gm' \<and> state gm' = Guessing
     \<and> map_of (rankings gm') (propKey (currentRanker gm')) = Some ranking
     \<and> actualPosition gm' = Some (indexOf ranking (currentTarget gm') + 1)
     \<and> (if currentTarget gm' \<in> Str ` set ranking
         then 1 \<le> indexOf ranking (currentTarget gm') + 1
              \<and> indexOf ranking (currentTarget gm') + 1 \<le> int (length ranking)
         else indexOf ranking (currentTarget gm') + 1 = 0)"
proof -
  define ranker where "ranker = (if currentRevealIndex gm < length (rankers gm)
                         then Str (rankers gm ! currentRevealIndex gm) else Undefined)"
  define target where "target = Str (players gm ! (randomIndex r mod length (players gm)))"
  from assms obtain ranking where
    rk: "map_of (rankings gm) (propKey ranker) = Some ranking"
    by (cases "map_of (rankings gm) (propKey ranker)")
       (auto simp: setNextReveal_def roomOf_def Let_def ranker_def)
  from assms rk have
    s': "s' = s\<lparr>games := AList.update gameId
          (gm\<lparr>currentRanker := ranker, currentTarget := target,
              currentQuestion := map_of (questionAssignments gm) (propKey ranker),
              currentGuesses := [],
              actualPosition := Some (indexOf ranking target + 1),
              currentFullRanking := None, state := Guessing\<rparr>) (games s)\<rparr>"
    unfolding ranker_def target_def
    by (simp add: setNextReveal_def roomOf_def Let_def)
  let ?gm' = "gm\<lparr>currentRanker := ranker, currentTarget := target,
              currentQuestion := map_of (questionAssignments gm) (propKey ranker),
              currentGuesses := [],
              actualPosition := Some (indexOf ranking target + 1),
              currentFullRanking := None, state := Guessing\<rparr>"
  have "roomOf s' gameId = Some ?gm'" by (simp add: s' roomOf_def update_conv')
  moreover have "map_of (rankings ?gm') (propKey (currentRanker ?gm')) = Some ranking"
    using rk by simp
  moreover have "if currentTarget ?gm' \<in> Str ` set ranking
         then 1 \<le> indexOf ranking (currentTarget ?gm') + 1
              \<and> indexOf ranking (currentTarget ?gm') + 1 \<le> int (length ranking)
         else indexOf ranking (currentTarget ?gm') + 1 = 0"
    using indexOf_range [of target ranking] indexOf_absent [of target ranking] by simp
  ultimately show ?thesis by (intro exI [of _ ?gm'] exI [of _ ranking]) simp
qed

text \<open>
  C7. \<open>setNextReveal\<close> computes \<open>rankings[ranker].indexOf(target) + 1\<close>. After the
  ranking \<open>[A, A]\<close> of A has been stored, B ranks too, A is the ranker and B the
  target: B is not in A's ranking, \<open>indexOf\<close> is -1, and \<open>actualPosition\<close> is 0 in a
  room of two players.
\<close>

theorem actualPosition_zero:
  "map_option
     (\<lambda>gm. (state gm, players gm, currentRanker gm, currentTarget gm,
            map_of (rankings gm) ''A'', actualPosition gm))
     (roomOf (stateAfter exampleConfig
        (duplicateRanking @ [(exampleRnd, SubmitRanking (Some ''B'') ''g'' [''B'', ''A''])])) ''g'')
   = Some (Guessing, [''A'', ''B''], Str ''A'', Str ''B'', Some [''A'', ''A''], Some 0)"
  by code_simp

section \<open>A player disconnects\<close>

lemma leaveGame_None:
  assumes "leaveGame playerName gm = None" and "playerName \<in> set (players gm)"
  shows "players gm = [playerName]"
proof -
  from assms(1) have "remove1 playerName (players gm) = []"
    by (simp add: leaveGame_def Let_def split: if_splits)
  then have "length (remove1 playerName (players gm)) = 0" by simp
  with assms(2) have "length (players gm) \<le> 1" by (simp add: length_remove1)
  with assms(2) show ?thesis by (cases "players gm") auto
qed

lemma disconnectAll_emits:
  assumes "(gameId, gm) \<in> set al" and "playerName \<in> set (players gm)"
    and "leaveGame playerName gm = Some gm'"
  shows "ToRoom gameId (GameState gm' None) \<in> set (snd (disconnectAll (Some playerName) al))"
  using assms(1)
proof (induction al)
  case Nil
  then show ?case by simp
next
  case (Cons a al)
  obtain gid0 gm0 where a: "a = (gid0, gm0)" by (cases a)
  show ?case
  proof (cases "a = (gameId, gm)")
    case True
    with a assms(2,3) show ?thesis by simp
  next
    case False
    with Cons have "ToRoom gameId (GameState gm' None)
        \<in> set (snd (disconnectAll (Some playerName) al))" by simp
    with a show ?thesis
      by (cases "leaveGame playerName gm0") simp_all
  qed
qed

lemma leaveGame_last:
  "(leaveGame playerName gm = None) = (remove1 playerName (players gm) = [])"
  by (simp add: leaveGame_def Let_def)

lemma disconnectAll_emitted:
  assumes "ToRoom gameId m \<in> set (snd (disconnectAll (Some playerName) al))"
  shows "\<exists>gm gm'. (gameId, gm) \<in> set al \<and> playerName \<in> set (players gm)
            \<and> leaveGame playerName gm = Some gm' \<and> m = GameState gm' None"
  using assms
proof (induction al)
  case Nil
  then show ?case by simp
next
  case (Cons a al)
  obtain gid0 gm0 where a: "a = (gid0, gm0)" by (cases a)
  show ?case
  proof (cases "playerName \<in> set (players gm0)")
    case False
    with Cons a show ?thesis by auto
  next
    case True
    show ?thesis
    proof (cases "leaveGame playerName gm0")
      case None
      with Cons a True show ?thesis by auto
    next
      case (Some gm1)
      from Cons.prems a True Some
      consider (here) "gameId = gid0" and "m = GameState gm1 None"
        | (later) "ToRoom gameId m \<in> set (snd (disconnectAll (Some playerName) al))"
        by auto
      then show ?thesis
      proof cases
        case here
        with a True Some show ?thesis by auto
      next
        case later
        from Cons.IH [OF later] show ?thesis by auto
      qed
    qed
  qed
qed

text \<open>
  C5, as the code has it. When a player of a room disconnects, the room is deleted,
  and nothing is broadcast to it, exactly when that player was its only one.
  Otherwise the room stays with at least one player: its phase becomes \<open>waiting\<close> when
  more than one player remains and \<open>'joining'\<close> when exactly one remains, the player is
  removed from \<open>players\<close> and has no entry left in \<open>points\<close>, \<open>questionAssignments\<close> and
  \<open>rankings\<close>, the points entries of the others are as before, and the room is
  broadcast.
\<close>

theorem disconnect_demotion:
  assumes "reachable cfg s" and "roomOf s gameId = Some gm"
    and "playerName \<in> set (players gm)"
  shows "((roomOf (fst (disconnect s (Some playerName))) gameId = None)
            = (players gm = [playerName]))
     \<and> (case roomOf (fst (disconnect s (Some playerName))) gameId of
           None \<Rightarrow> (\<forall>m. ToRoom gameId m \<notin> set (snd (disconnect s (Some playerName))))
         | Some gm' \<Rightarrow>
             players gm' \<noteq> []
             \<and> length (players gm') = length (players gm) - 1
             \<and> state gm' = (if length (players gm') > 1 then Waiting else Joining)
             \<and> mset (players gm') = mset (players gm) - {#playerName#}
             \<and> playerName \<notin> set (players gm')
             \<and> playerName \<notin> fst ` set (points gm')
             \<and> playerName \<notin> fst ` set (questionAssignments gm')
             \<and> playerName \<notin> fst ` set (rankings gm')
             \<and> (\<forall>p. p \<noteq> playerName \<longrightarrow> map_of (points gm') p = map_of (points gm) p)
             \<and> ToRoom gameId (GameState gm' None) \<in> set (snd (disconnect s (Some playerName))))"
proof -
  have inv: "serverInv s" using assms(1) by (rule reachable_inv)
  then have d: "distinct (map fst (games s))" by (simp add: serverInv_def)
  have gm: "map_of (games s) gameId = Some gm" using assms(2) by (simp add: roomOf_def)
  have dp: "distinct (players gm)"
    using serverInv_room [OF inv gm] by (simp add: roomInv_def)
  have r: "roomOf (fst (disconnect s (Some playerName))) gameId = leaveGame playerName gm"
    using gm assms(3) by (simp add: roomOf_def disconnect_def map_of_disconnectAll [OF d])
  have last: "(leaveGame playerName gm = None) = (players gm = [playerName])"
  proof
    assume "leaveGame playerName gm = None"
    then show "players gm = [playerName]" using assms(3) by (rule leaveGame_None)
  next
    assume "players gm = [playerName]"
    then show "leaveGame playerName gm = None" by (simp add: leaveGame_last)
  qed
  show ?thesis
  proof (cases "leaveGame playerName gm")
    case None
    have "ToRoom gameId m \<notin> set (snd (disconnect s (Some playerName)))" for m
    proof
      assume "ToRoom gameId m \<in> set (snd (disconnect s (Some playerName)))"
      then have "ToRoom gameId m \<in> set (snd (disconnectAll (Some playerName) (games s)))"
        by (simp add: disconnect_def)
      from disconnectAll_emitted [OF this]
      obtain gm0 gm' where m: "(gameId, gm0) \<in> set (games s)"
        and l: "leaveGame playerName gm0 = Some gm'" by blast
      from d m have "map_of (games s) gameId = Some gm0" by simp
      with gm have "gm0 = gm" by simp
      with l None show False by simp
    qed
    with r None last show ?thesis by simp
  next
    case (Some gm')
    have e: "ToRoom gameId (GameState gm' None) \<in> set (snd (disconnect s (Some playerName)))"
      using disconnectAll_emits [OF map_of_SomeD [OF gm] assms(3) Some]
      by (simp add: disconnect_def)
    have p: "playerName \<notin> set (remove1 playerName (players gm))"
      using dp by simp
    have n: "remove1 playerName (players gm) \<noteq> []" by (rule leaveGame_Some(2) [OF Some])
    have l: "length (remove1 playerName (players gm)) = length (players gm) - 1"
      using assms(3) by (simp add: length_remove1)
    have sn: "sortByPoints (AList.delete playerName (points gm))
        (remove1 playerName (players gm)) \<noteq> []"
      using n by (metis length_0_conv length_sortByPoints)
    have c: "case Some gm' of
           None \<Rightarrow> (\<forall>m. ToRoom gameId m \<notin> set (snd (disconnect s (Some playerName))))
         | Some gm' \<Rightarrow>
             players gm' \<noteq> []
             \<and> length (players gm') = length (players gm) - 1
             \<and> state gm' = (if length (players gm') > 1 then Waiting else Joining)
             \<and> mset (players gm') = mset (players gm) - {#playerName#}
             \<and> playerName \<notin> set (players gm')
             \<and> playerName \<notin> fst ` set (points gm')
             \<and> playerName \<notin> fst ` set (questionAssignments gm')
             \<and> playerName \<notin> fst ` set (rankings gm')
             \<and> (\<forall>p. p \<noteq> playerName \<longrightarrow> map_of (points gm') p = map_of (points gm) p)
             \<and> ToRoom gameId (GameState gm' None) \<in> set (snd (disconnect s (Some playerName)))"
      using e p sn l delete_notin_dom [of playerName "points gm"]
        delete_notin_dom [of playerName "questionAssignments gm"]
        delete_notin_dom [of playerName "rankings gm"]
      by (simp add: leaveGame_Some(1) [OF Some])
    from Some last have "(Some gm' = None) = (players gm = [playerName])" by simp
    with c show ?thesis unfolding r Some by simp
  qed
qed

text \<open>
  B leaves the room of A and B, which is in the reveal phase: the room stays with A
  alone, in the phase \<open>'joining'\<close>, and A keeps the point scored.
\<close>

theorem disconnect_demotion_witness:
  "reachable exampleConfig (stateAfter exampleConfig twoPlayersRevealed)
   \<and> roomOf (stateAfter exampleConfig twoPlayersRevealed) ''g''
       = Some (roomAfter exampleConfig twoPlayersRevealed ''g'')
   \<and> ''B'' \<in> set (players (roomAfter exampleConfig twoPlayersRevealed ''g''))
   \<and> (((roomOf (fst (disconnect (stateAfter exampleConfig twoPlayersRevealed) (Some ''B''))) ''g''
           = None)
          = (players (roomAfter exampleConfig twoPlayersRevealed ''g'') = [''B'']))
     \<and> (case roomOf (fst (disconnect (stateAfter exampleConfig twoPlayersRevealed) (Some ''B''))) ''g'' of
           None \<Rightarrow> (\<forall>m. ToRoom ''g'' m
               \<notin> set (snd (disconnect (stateAfter exampleConfig twoPlayersRevealed) (Some ''B''))))
         | Some gm' \<Rightarrow>
             players gm' \<noteq> []
             \<and> length (players gm')
                 = length (players (roomAfter exampleConfig twoPlayersRevealed ''g'')) - 1
             \<and> state gm' = (if length (players gm') > 1 then Waiting else Joining)
             \<and> mset (players gm')
                 = mset (players (roomAfter exampleConfig twoPlayersRevealed ''g'')) - {#''B''#}
             \<and> ''B'' \<notin> set (players gm')
             \<and> ''B'' \<notin> fst ` set (points gm')
             \<and> ''B'' \<notin> fst ` set (questionAssignments gm')
             \<and> ''B'' \<notin> fst ` set (rankings gm')
             \<and> (\<forall>p. p \<noteq> ''B'' \<longrightarrow> map_of (points gm') p
                   = map_of (points (roomAfter exampleConfig twoPlayersRevealed ''g'')) p)
             \<and> ToRoom ''g'' (GameState gm' None)
                 \<in> set (snd (disconnect (stateAfter exampleConfig twoPlayersRevealed) (Some ''B'')))))
   \<and> map_option (\<lambda>gm'. (state gm', players gm', points gm'))
        (roomOf (fst (disconnect (stateAfter exampleConfig twoPlayersRevealed) (Some ''B''))) ''g'')
       = Some (Joining, [''A''], [(''A'', 1)])"
proof -
  have h2: "roomOf (stateAfter exampleConfig twoPlayersRevealed) ''g''
       = Some (roomAfter exampleConfig twoPlayersRevealed ''g'')" by code_simp
  have h3: "''B'' \<in> set (players (roomAfter exampleConfig twoPlayersRevealed ''g''))"
    by code_simp
  have v: "map_option (\<lambda>gm'. (state gm', players gm', points gm'))
        (roomOf (fst (disconnect (stateAfter exampleConfig twoPlayersRevealed) (Some ''B''))) ''g'')
       = Some (Joining, [''A''], [(''A'', 1)])" by code_simp
  note c = disconnect_demotion [OF reachable_twoPlayersRevealed h2 h3]
  from reachable_twoPlayersRevealed h2 h3 conjunct1 [OF c] conjunct2 [OF c] v show ?thesis
    by (intro conjI)
qed

text \<open>
  A, alone in a room that is in the guessing phase, leaves: the room is deleted and
  nothing is emitted.
\<close>

lemma last_player_leaves:
  "map_option (\<lambda>gm. (players gm, state gm)) (roomOf (stateAfter exampleConfig onePlayerGuessing) ''g'')
     = Some ([''A''], Guessing)
   \<and> disconnect (stateAfter exampleConfig onePlayerGuessing) (Some ''A'')
       = ((stateAfter exampleConfig onePlayerGuessing)\<lparr>games := []\<rparr>, [])"
  by code_simp

text \<open>
  C5 as claimed fails: after the last but one player has left a reveal-phase room, the
  phase is \<open>'joining'\<close>, which is neither \<open>waiting\<close> nor any of the four phases.
\<close>

theorem disconnect_last_but_one_counterexample:
  "map_option state
     (roomOf (stateAfter exampleConfig (twoPlayersRevealed @ [(exampleRnd, Disconnect (Some ''B''))]))
        ''g'')
   = Some Joining"
  by code_simp

section \<open>Scoring a reveal\<close>







text \<open>What one \<open>submitGuess\<close> does to the room it addresses.\<close>

lemma submitGuess_room:
  assumes "roomOf s gameId = Some gm"
  shows "(fst (submitGuess s me gameId guess) = s
          \<and> (\<forall>playerName. me = Some playerName \<and> playerName \<in> set (players gm)
                \<and> state gm = Guessing \<and> Str playerName \<noteq> currentRanker gm
                \<longrightarrow> guess < 1 \<or> guess > int (length (players gm))))
       \<or> (\<exists>playerName. me = Some playerName \<and> playerName \<in> set (players gm)
             \<and> state gm = Guessing \<and> Str playerName \<noteq> currentRanker gm
             \<and> roomOf (fst (submitGuess s me gameId guess)) gameId =
                 Some (if length (AList.update playerName guess (currentGuesses gm))
                          = length (filter (\<lambda>p. Str p \<noteq> currentRanker gm) (players gm))
                       then awardPoints
                              (gm\<lparr>currentGuesses :=
                                     AList.update playerName guess (currentGuesses gm)\<rparr>)
                       else gm\<lparr>currentGuesses :=
                                  AList.update playerName guess (currentGuesses gm)\<rparr>))"
  using assms
  by (auto simp: submitGuess_def roomOf_def Let_def update_conv' split: option.splits)

lemma submitGuess_not_guessing:
  assumes "roomOf s gameId = Some gm" and "state gm \<noteq> Guessing"
  shows "submitGuess s me gameId guess = (s, [])"
  using assms by (auto simp: submitGuess_def roomOf_def split: option.splits)




text \<open>
  Five correct guesses: each guesser gains one point, the ranker gains three.
\<close>

lemma ranker_reward_capped:
  "map_option (\<lambda>gm. (state gm, actualPosition gm, currentGuesses gm, points gm))
     (roomOf (stateAfter exampleConfig sixPlayersGuessing) ''g'')
     = Some (Guessing, Some 2, [(''P1'', 2), (''P2'', 2), (''P3'', 2), (''P4'', 2)],
             [(''R'', 0), (''P1'', 0), (''P2'', 0), (''P3'', 0), (''P4'', 0), (''P5'', 0)])
   \<and> map_option (\<lambda>gm. (state gm, correctGuessers gm, points gm))
       (roomOf (fst (submitGuess (stateAfter exampleConfig sixPlayersGuessing) (Some ''P5'') ''g'' 2))
          ''g'')
     = Some (Reveal, [''P1'', ''P2'', ''P3'', ''P4'', ''P5''],
             [(''R'', 3), (''P1'', 1), (''P2'', 1), (''P3'', 1), (''P4'', 1), (''P5'', 1)])"
  by code_simp

text \<open>
  A second reveal in the room of A and B, which starts from one point each: B is the
  ranker and the target, at position 1. When A guesses 1, A gains one point and B
  gains one; when A guesses 2, the points stay as they are.
\<close>

lemma second_reveal_adds_to_points:
  "map_option (\<lambda>gm. (state gm, currentRanker gm, actualPosition gm, points gm))
     (roomOf (stateAfter exampleConfig
        (twoPlayersRevealed @ [(exampleRnd, NextReveal (Some ''A'') ''g'')])) ''g'')
     = Some (Guessing, Str ''B'', Some 1, [(''A'', 1), (''B'', 1)])
   \<and> map_option (\<lambda>gm. (state gm, correctGuessers gm, points gm))
       (roomOf (stateAfter exampleConfig
          (twoPlayersRevealed @ map (Pair exampleRnd)
             [NextReveal (Some ''A'') ''g'', SubmitGuess (Some ''A'') ''g'' 1])) ''g'')
     = Some (Reveal, [''A''], [(''A'', 2), (''B'', 2)])
   \<and> map_option (\<lambda>gm. (state gm, correctGuessers gm, points gm))
       (roomOf (stateAfter exampleConfig
          (twoPlayersRevealed @ map (Pair exampleRnd)
             [NextReveal (Some ''A'') ''g'', SubmitGuess (Some ''A'') ''g'' 2])) ''g'')
     = Some (Reveal, [], [(''A'', 1), (''B'', 1)])"
  by code_simp

section \<open>From guessing to reveal\<close>

text \<open>
  C3, for rooms of two players or more. In a reachable room that is in the guessing
  phase: the ranker has no entry in \<open>currentGuesses\<close>, and a guess sent by the ranker
  is answered with an error and changes nothing; a guess is still missing (the
  number of entries is below \<open>players.length - 1\<close>); after any \<open>submitGuess\<close> the room
  is in the guessing or the reveal phase, and it is in the reveal phase exactly when
  the number of entries equals \<open>players.length - 1\<close>; in the reveal phase a further
  \<open>submitGuess\<close> changes nothing, so the step is taken once.
\<close>

theorem guessing_to_reveal:
  assumes "reachable cfg s" and "roomOf s gameId = Some gm" and "state gm = Guessing"
    and "2 \<le> length (players gm)"
  shows "currentRanker gm \<notin> Str ` fst ` set (currentGuesses gm)
     \<and> (\<forall>playerName guess. Str playerName = currentRanker gm \<longrightarrow>
           submitGuess s (Some playerName) gameId guess
             = (s, [ToSocket (Error ''You cannot guess as the ranker'')]))
     \<and> length (currentGuesses gm) < length (players gm) - 1
     \<and> (\<forall>me guess. \<exists>gm'.
           roomOf (fst (submitGuess s me gameId guess)) gameId = Some gm'
           \<and> (state gm' = Guessing \<or> state gm' = Reveal)
           \<and> (state gm' = Reveal) = (length (currentGuesses gm') = length (players gm') - 1)
           \<and> currentRanker gm' \<notin> Str ` fst ` set (currentGuesses gm')
           \<and> (state gm' = Reveal \<longrightarrow>
                (\<forall>me' guess'. submitGuess (fst (submitGuess s me gameId guess)) me' gameId guess'
                    = (fst (submitGuess s me gameId guess), []))))"
proof -
  note inv = reachable_inv [OF assms(1)]
  note ri = reachable_room [OF assms(1,2)]
  from ri assms(3) obtain ranker where rk: "currentRanker gm = Str ranker"
    and rp: "ranker \<in> set (players gm)"
    by (auto simp: roomInv_def)
  have dp: "distinct (players gm)" using ri by (simp add: roomInv_def)
  have a: "currentRanker gm \<notin> Str ` fst ` set (currentGuesses gm)"
    using ri by (simp add: roomInv_def)
  have b: "submitGuess s (Some playerName) gameId guess
             = (s, [ToSocket (Error ''You cannot guess as the ranker'')])"
    if "Str playerName = currentRanker gm" for playerName guess
  proof -
    from that rk rp have "playerName \<in> set (players gm)" by simp
    with that assms(2,3) show ?thesis by (simp add: submitGuess_def roomOf_def)
  qed
  have c: "length (currentGuesses gm) < length (players gm) - 1"
    using ri assms(3,4) by (simp add: roomInv_def)
  have d: "\<exists>gm'. roomOf (fst (submitGuess s me gameId guess)) gameId = Some gm'
           \<and> (state gm' = Guessing \<or> state gm' = Reveal)
           \<and> (state gm' = Reveal) = (length (currentGuesses gm') = length (players gm') - 1)
           \<and> currentRanker gm' \<notin> Str ` fst ` set (currentGuesses gm')
           \<and> (state gm' = Reveal \<longrightarrow>
                (\<forall>me' guess'. submitGuess (fst (submitGuess s me gameId guess)) me' gameId guess'
                    = (fst (submitGuess s me gameId guess), [])))" for me guess
  proof -
    let ?s' = "fst (submitGuess s me gameId guess)"
    have inv': "serverInv ?s'" by (rule submitGuess_inv [OF inv])
    from submitGuess_room [OF assms(2), of me guess]
    consider (same) "?s' = s"
      | (stored) playerName where "me = Some playerName" "playerName \<in> set (players gm)"
          "Str playerName \<noteq> currentRanker gm"
          "roomOf ?s' gameId =
                 Some (if length (AList.update playerName guess (currentGuesses gm))
                          = length (filter (\<lambda>p. Str p \<noteq> currentRanker gm) (players gm))
                       then awardPoints
                              (gm\<lparr>currentGuesses :=
                                     AList.update playerName guess (currentGuesses gm)\<rparr>)
                       else gm\<lparr>currentGuesses :=
                                  AList.update playerName guess (currentGuesses gm)\<rparr>)"
      by blast
    then obtain gm' where r': "roomOf ?s' gameId = Some gm'"
      and st: "state gm' = Guessing \<and> length (players gm') = length (players gm)
               \<or> state gm' = Reveal
                  \<and> length (currentGuesses gm') = length (players gm') - 1"
    proof cases
      case same
      with assms(2,3) that [of gm] show ?thesis by simp
    next
      case stored
      let ?gm1 = "gm\<lparr>currentGuesses := AList.update playerName guess (currentGuesses gm)\<rparr>"
      show ?thesis
      proof (cases "length (AList.update playerName guess (currentGuesses gm))
                          = length (filter (\<lambda>p. Str p \<noteq> currentRanker gm) (players gm))")
        case True
        with stored(4) have r: "roomOf ?s' gameId = Some (awardPoints ?gm1)" by simp
        have "length (currentGuesses (awardPoints ?gm1)) = length (players (awardPoints ?gm1)) - 1"
          using True length_filter_others [OF dp rp] rk
          by (simp add: points_awardPoints_frame)
        with r that [of "awardPoints ?gm1"] show ?thesis
          by (simp add: points_awardPoints_frame)
      next
        case False
        with stored(4) have r: "roomOf ?s' gameId = Some ?gm1" by simp
        with that [of ?gm1] assms(3) show ?thesis by simp
      qed
    qed
    have ri': "roomInv gm'" using inv' r' by (auto simp: roomOf_def dest: serverInv_room)
    have e1: "state gm' = Guessing \<or> state gm' = Reveal" using st by blast
    have e2: "(state gm' = Reveal) = (length (currentGuesses gm') = length (players gm') - 1)"
    proof (cases "state gm' = Reveal")
      case True
      with st show ?thesis by auto
    next
      case False
      with st have g: "state gm' = Guessing" "length (players gm') = length (players gm)" by auto
      with ri' assms(4) have "length (currentGuesses gm') < length (players gm') - 1"
        by (simp add: roomInv_def)
      with False show ?thesis by simp
    qed
    have e3: "currentRanker gm' \<notin> Str ` fst ` set (currentGuesses gm')"
      using ri' by (simp add: roomInv_def)
    have e4: "state gm' = Reveal \<longrightarrow>
                (\<forall>me' guess'. submitGuess ?s' me' gameId guess' = (?s', []))"
      using submitGuess_not_guessing [OF r'] by simp
    from r' e1 e2 e3 e4 show ?thesis by blast
  qed
  from a b c d show ?thesis by blast
qed

text \<open>
  The room of A and B in the guessing phase, and the guess of B that completes the
  reveal.
\<close>

theorem guessing_to_reveal_witness:
  "reachable exampleConfig (stateAfter exampleConfig twoPlayersGuessing)
   \<and> roomOf (stateAfter exampleConfig twoPlayersGuessing) ''g''
       = Some (roomAfter exampleConfig twoPlayersGuessing ''g'')
   \<and> state (roomAfter exampleConfig twoPlayersGuessing ''g'') = Guessing
   \<and> 2 \<le> length (players (roomAfter exampleConfig twoPlayersGuessing ''g''))
   \<and> currentRanker (roomAfter exampleConfig twoPlayersGuessing ''g'') = Str ''A''
   \<and> submitGuess (stateAfter exampleConfig twoPlayersGuessing) (Some ''A'') ''g'' 1
       = (stateAfter exampleConfig twoPlayersGuessing,
          [ToSocket (Error ''You cannot guess as the ranker'')])
   \<and> length (currentGuesses (roomAfter exampleConfig twoPlayersGuessing ''g''))
       < length (players (roomAfter exampleConfig twoPlayersGuessing ''g'')) - 1
   \<and> map_option (\<lambda>gm'. (state gm', currentGuesses gm'))
        (roomOf (fst (submitGuess (stateAfter exampleConfig twoPlayersGuessing) (Some ''B'') ''g'' 2))
           ''g'')
       = Some (Reveal, [(''B'', 2)])"
proof -
  have h2: "roomOf (stateAfter exampleConfig twoPlayersGuessing) ''g''
       = Some (roomAfter exampleConfig twoPlayersGuessing ''g'')" by code_simp
  have h3: "state (roomAfter exampleConfig twoPlayersGuessing ''g'') = Guessing" by code_simp
  have h4: "2 \<le> length (players (roomAfter exampleConfig twoPlayersGuessing ''g''))"
    by code_simp
  have v1: "currentRanker (roomAfter exampleConfig twoPlayersGuessing ''g'') = Str ''A''"
    by code_simp
  have v2: "map_option (\<lambda>gm'. (state gm', currentGuesses gm'))
        (roomOf (fst (submitGuess (stateAfter exampleConfig twoPlayersGuessing) (Some ''B'') ''g'' 2))
           ''g'')
       = Some (Reveal, [(''B'', 2)])" by code_simp
  note t = guessing_to_reveal [OF reachable_twoPlayersGuessing h2 h3 h4]
  from t v1 have "submitGuess (stateAfter exampleConfig twoPlayersGuessing) (Some ''A'') ''g'' 1
       = (stateAfter exampleConfig twoPlayersGuessing,
          [ToSocket (Error ''You cannot guess as the ranker'')])" by simp
  moreover from t
  have "length (currentGuesses (roomAfter exampleConfig twoPlayersGuessing ''g''))
       < length (players (roomAfter exampleConfig twoPlayersGuessing ''g'')) - 1" by blast
  ultimately show ?thesis
    using reachable_twoPlayersGuessing h2 h3 h4 v1 v2 by (intro conjI)
qed

text \<open>
  C3 as claimed fails in a room of one player: the room enters the guessing phase
  with no guess stored, so the number of entries equals \<open>players.length - 1 = 0\<close>,
  yet the phase is guessing and not reveal; the only player is the ranker, whose
  guess is rejected.
\<close>

theorem single_player_counterexample:
  "map_option
     (\<lambda>gm. (state gm, players gm, currentRanker gm, length (currentGuesses gm),
            length (players gm) - 1))
     (roomOf (stateAfter exampleConfig onePlayerGuessing) ''g'')
     = Some (Guessing, [''A''], Str ''A'', 0, 0)
   \<and> submitGuess (stateAfter exampleConfig onePlayerGuessing) (Some ''A'') ''g'' 1
       = (stateAfter exampleConfig onePlayerGuessing,
          [ToSocket (Error ''You cannot guess as the ranker'')])"
  by code_simp

text \<open>No \<open>submitGuess\<close> at all moves that room out of the guessing phase.\<close>

lemma single_player_stuck:
  "map_option state
     (roomOf (fst (submitGuess (stateAfter exampleConfig onePlayerGuessing) me gameId guess)) ''g'')
   = Some Guessing"
proof -
  have r: "roomOf (stateAfter exampleConfig onePlayerGuessing) ''g''
     = Some (roomAfter exampleConfig onePlayerGuessing ''g'')" by code_simp
  have p: "players (roomAfter exampleConfig onePlayerGuessing ''g'') = [''A'']"
    and c: "currentRanker (roomAfter exampleConfig onePlayerGuessing ''g'') = Str ''A''"
    and st: "state (roomAfter exampleConfig onePlayerGuessing ''g'') = Guessing"
    by code_simp+
  have "fst (submitGuess (stateAfter exampleConfig onePlayerGuessing) me gameId guess)
      = stateAfter exampleConfig onePlayerGuessing"
  proof (cases "gameId = ''g''")
    case True
    with submitGuess_room [OF r, of me guess] p c show ?thesis by auto
  next
    case False
    have k: "map fst (games (stateAfter exampleConfig onePlayerGuessing)) = [''g'']"
      by code_simp
    have "map_of (games (stateAfter exampleConfig onePlayerGuessing)) gameId = None"
      using False k by (metis list.set(1) list.simps(15) map_of_eq_None_iff set_map singletonD)
    then show ?thesis by (simp add: submitGuess_def)
  qed
  with r st show ?thesis by simp
qed

section \<open>What \<open>selectQuestions\<close> returns\<close>

lemma permuting_length: "permuting f \<Longrightarrow> length (f xs) = length xs"
  by (metis permuting_def mset_eq_length)

lemma pool_result:
  assumes "selectFromQuestionPool cfg r gid gm n s = (qs, gm', s', outs)"
    and "permuting (shufflePool r)"
  shows "length qs = n \<and> outs = []
     \<or> qs = [] \<and> gm' = gm \<and> s' = s
        \<and> outs = [ToRoom gid (GameState (gm\<lparr>noMoreQuestions := True\<rparr>) None)]"
  using assms(1) permuting_length [OF assms(2)]
  by (auto simp: selectFromQuestionPool_def Let_def split: if_splits)

lemma retry_result:
  "retryLoop cfg r k a n c need gm s = (Some qs, gm', s') \<Longrightarrow> length qs = n"
proof (induction k arbitrary: a gm s)
  case 0
  then show ?case by simp
next
  case (Suc k)
  then show ?case
    by (auto simp: Let_def split: response.splits if_splits)
qed

text \<open>
  \<open>selectQuestions\<close> returns either exactly the number of questions asked for, or
  the empty list together with a broadcast of the room with \<open>noMoreQuestions: true\<close>.
\<close>

lemma select_result:
  assumes sq: "selectQuestions cfg r gid n s = (qs, s', outs)"
    and v: "validRnd r" and gm: "map_of (games s) gid = Some gm"
  shows "length qs = n
     \<or> qs = [] \<and> (\<exists>u. games s' = AList.update gid (gm\<lparr>usedQuestions := u\<rparr>) (games s)
                    \<and> outs = [ToRoom gid (GameState (gm\<lparr>usedQuestions := u,
                                                         noMoreQuestions := True\<rparr>) None)])"
proof -
  have p: "permuting (shufflePool r)" using v by (simp add: validRnd_def)
  show ?thesis
  proof (cases "hasApiKey cfg")
    case False
    obtain qs0 gm0 s0 outs0 where
      sp: "selectFromQuestionPool cfg r gid gm n s = (qs0, gm0, s0, outs0)"
      by (cases "selectFromQuestionPool cfg r gid gm n s") auto
    with sq gm False have e: "qs = qs0" "outs = outs0"
      "s' = s0\<lparr>games := AList.update gid gm0 (games s0)\<rparr>"
      by (simp_all add: selectQuestions_def)
    from pool_result [OF sp p] show ?thesis
    proof
      assume "length qs0 = n \<and> outs0 = []"
      with e show ?thesis by simp
    next
      assume f: "qs0 = [] \<and> gm0 = gm \<and> s0 = s
        \<and> outs0 = [ToRoom gid (GameState (gm\<lparr>noMoreQuestions := True\<rparr>) None)]"
      have "games s' = AList.update gid (gm\<lparr>usedQuestions := usedQuestions gm\<rparr>) (games s)
         \<and> outs = [ToRoom gid (GameState (gm\<lparr>usedQuestions := usedQuestions gm,
                                              noMoreQuestions := True\<rparr>) None)]"
        using e f by simp
      with e f show ?thesis by blast
    qed
  next
    case True
    obtain cache1 cached used1 ledger1 where
      d: "drainCache n (questionCache s) [] (usedQuestions gm) (globalUsedQuestions s)
            = (cache1, cached, used1, ledger1)"
      by (cases "drainCache n (questionCache s) [] (usedQuestions gm) (globalUsedQuestions s)")
         auto
    let ?gm1 = "gm\<lparr>usedQuestions := used1\<rparr>"
    let ?s1 = "s\<lparr>questionCache := cache1, globalUsedQuestions := ledger1\<rparr>"
    show ?thesis
    proof (cases "length cached \<ge> n")
      case True
      with sq gm \<open>hasApiKey cfg\<close> d have "qs = take n cached"
        by (simp add: selectQuestions_def)
      with True show ?thesis by simp
    next
      case False
      obtain res gm2 s2 where
        rl: "retryLoop cfg r maxRetries 1 n cached (n - length cached) ?gm1 ?s1 = (res, gm2, s2)"
        by (cases "retryLoop cfg r maxRetries 1 n cached (n - length cached) ?gm1 ?s1") auto
      from retry_frame [OF rl] obtain u2 where
        rf: "games s2 = games s" "gm2 = gm\<lparr>usedQuestions := u2\<rparr>" by auto
      show ?thesis
      proof (cases res)
        case (Some qs1)
        with sq gm \<open>hasApiKey cfg\<close> d False rl have "qs = qs1"
          by (simp add: selectQuestions_def)
        with retry_result rl Some show ?thesis by blast
      next
        case None
        obtain qs0 gm0 s0 outs0 where
          sp: "selectFromQuestionPool cfg r gid gm2 n s2 = (qs0, gm0, s0, outs0)"
          by (cases "selectFromQuestionPool cfg r gid gm2 n s2") auto
        with sq gm \<open>hasApiKey cfg\<close> d False rl None have e: "qs = qs0" "outs = outs0"
          "s' = s0\<lparr>games := AList.update gid gm0 (games s0)\<rparr>"
          by (simp_all add: selectQuestions_def)
        from pool_result [OF sp p] show ?thesis
        proof
          assume "length qs0 = n \<and> outs0 = []"
          with e show ?thesis by simp
        next
          assume f: "qs0 = [] \<and> gm0 = gm2 \<and> s0 = s2
            \<and> outs0 = [ToRoom gid (GameState (gm2\<lparr>noMoreQuestions := True\<rparr>) None)]"
          have "games s' = AList.update gid (gm\<lparr>usedQuestions := u2\<rparr>) (games s)
             \<and> outs = [ToRoom gid (GameState (gm\<lparr>usedQuestions := u2,
                                                  noMoreQuestions := True\<rparr>) None)]"
            using e f rf by simp
          with e f show ?thesis by blast
        qed
      qed
    qed
  qed
qed

lemma valid_fourPlayersTwoStarts: "list_all (\<lambda>(r, ev). validRnd r) fourPlayersTwoStarts"
  by (simp add: fourPlayersTwoStarts_def validRnd_exampleRnd)

lemma reachable_fourPlayersTwoStarts:
  "reachable exampleConfig (stateAfter exampleConfig fourPlayersTwoStarts)"
proof (rule stateAfter_reachable [OF _ valid_fourPlayersTwoStarts])
  show "run exampleConfig initialServer fourPlayersTwoStarts \<noteq> None" by code_simp
qed

section \<open>The prefetch cache\<close>

lemma drain_nothing:
  "set cache \<subseteq> set ledger \<Longrightarrow>
   drainCache n cache cached used ledger = (cache', cached', used', ledger')
   \<Longrightarrow> cached' = cached \<and> used' = used \<and> ledger' = ledger"
  by (induction n cache cached used ledger rule: drainCache.induct)
     (auto simp: unused_def split: if_splits)

text \<open>
  In every reachable state each cached question is in the ledger, so the drain loop
  takes none of them: what \<open>selectQuestions\<close> puts into the cache is never handed out.
\<close>

lemma cache_never_served:
  assumes "reachable cfg s"
    and "drainCache n (questionCache s) [] used (globalUsedQuestions s)
           = (cache', cached, used', ledger')"
  shows "cached = []"
  using drain_nothing [OF serverInv_cache [OF reachable_inv [OF assms(1)]] assms(2)] by simp

text \<open>
  C9. The first start in the room of A and B gets three accepted questions for two
  players: the third one is pushed into the cache, and it is in the ledger and in
  the room's used-set as well. When C then starts a second room, the drain loop
  shifts that question out of the cache and drops it, because the ledger holds it;
  C is served from the seed pool, and the cache is empty.
\<close>

theorem surplus_never_served:
  "(questionCache (stateAfter apiConfig surplusCached),
    globalUsedQuestions (stateAfter apiConfig surplusCached))
     = ([''Who is the most likely to sing in the shower?''], threeGenerated)
   \<and> (questionCache (stateAfter apiConfig surplusThenOtherRoom),
      map_option questionAssignments (roomOf (stateAfter apiConfig surplusThenOtherRoom) ''h''))
     = ([], Some [(''C'', ''Q1'')])"
  by code_simp

section \<open>The similarity filter\<close>

lemma spread_append:
  "spread cmp base (xs @ ys) = (spread cmp base xs \<and> spread cmp (base @ xs) ys)"
  by (induction xs arbitrary: base) auto

lemma validate_spread:
  "validateQuestions cmp qs valid used ledger = (valid', used', ledger')
   \<Longrightarrow> \<exists>acc. valid' = valid @ acc \<and> ledger' = ledger @ acc \<and> spread cmp ledger acc"
proof (induction qs arbitrary: valid used ledger)
  case Nil
  then show ?case by simp
next
  case (Cons q qs)
  show ?case
  proof (cases "q \<in> set used \<or> q \<in> set ledger
      \<or> list_ex (\<lambda>existingKey. cmp q existingKey > 7 / 10) ledger")
    case True
    with Cons.prems have "validateQuestions cmp qs valid used ledger = (valid', used', ledger')"
      by (auto split: if_splits)
    from Cons.IH [OF this] show ?thesis .
  next
    case False
    then have nl: "q \<notin> set ledger"
      and far: "list_all (\<lambda>existingKey. cmp q existingKey \<le> 7 / 10) ledger"
      by (auto simp: list_ex_iff list_all_iff not_less)
    from False Cons.prems
    have "validateQuestions cmp qs (valid @ [q]) (setAdd q used) (ledger @ [q])
        = (valid', used', ledger')"
      by (simp add: setAdd_def)
    from Cons.IH [OF this] obtain acc where
      "valid' = (valid @ [q]) @ acc" "ledger' = (ledger @ [q]) @ acc"
      "spread cmp (ledger @ [q]) acc" by blast
    with nl far have "valid' = valid @ (q # acc) \<and> ledger' = ledger @ (q # acc)
        \<and> spread cmp ledger (q # acc)" by simp
    then show ?thesis by blast
  qed
qed

lemma spread_distinct: "spread cmp base acc \<Longrightarrow> distinct acc \<and> set acc \<inter> set base = {}"
proof (induction acc arbitrary: base)
  case Nil
  then show ?case by simp
next
  case (Cons q qs)
  from Cons.prems have q: "q \<notin> set base" and sp: "spread cmp (base @ [q]) qs" by auto
  from Cons.IH [OF sp] q show ?case by auto
qed

text \<open>One pass of the retry loop: the attempt is skipped, returns, or is followed by the next.\<close>

lemma retryLoop_pass:
  assumes "retryLoop cfg r (Suc k) attempt n cached needed gm s = (res, gm', s')"
  obtains
    (skipped) "retryLoop cfg r k (attempt + 1) n cached needed gm
        (s\<lparr>fallbackQuestions := shuffleExamples r attempt (fallbackQuestions s)\<rparr>)
      = (res, gm', s')"
  | (returned) newQuestions valid used' ledger' where
      "validateQuestions (compareTwoStrings cfg) newQuestions [] (usedQuestions gm)
         (globalUsedQuestions s) = (valid, used', ledger')"
      "apiResponse r attempt = Questions newQuestions"
      "res = Some (take n (cached @ take needed valid))"
      "gm' = gm\<lparr>usedQuestions := used'\<rparr>"
      "s' = s\<lparr>fallbackQuestions := shuffleExamples r attempt (fallbackQuestions s),
              globalUsedQuestions := ledger',
              questionCache := (if length valid > needed
                                then questionCache s @ drop needed valid
                                else questionCache s)\<rparr>"
  | (repeated) newQuestions valid used' ledger' where
      "validateQuestions (compareTwoStrings cfg) newQuestions [] (usedQuestions gm)
         (globalUsedQuestions s) = (valid, used', ledger')"
      "apiResponse r attempt = Questions newQuestions"
      "retryLoop cfg r k (attempt + 1) n cached needed (gm\<lparr>usedQuestions := used'\<rparr>)
         (s\<lparr>fallbackQuestions := shuffleExamples r attempt (fallbackQuestions s),
            globalUsedQuestions := ledger',
            questionCache := (if length valid > needed
                              then questionCache s @ drop needed valid
                              else questionCache s)\<rparr>)
       = (res, gm', s')"
proof (cases "apiResponse r attempt")
  case ApiFailure
  with assms show ?thesis by (intro skipped) simp
next
  case (Questions qs)
  show ?thesis
  proof (cases "length qs < needed \<or> \<not> list_all validFormat qs")
    case True
    with Questions assms show ?thesis by (intro skipped) (simp split: if_splits)
  next
    case False
    obtain valid used' ledger' where
      v: "validateQuestions (compareTwoStrings cfg) qs [] (usedQuestions gm)
            (globalUsedQuestions s) = (valid, used', ledger')"
      by (cases "validateQuestions (compareTwoStrings cfg) qs [] (usedQuestions gm)
            (globalUsedQuestions s)") auto
    show ?thesis
    proof (cases "length (cached @ take needed valid) \<ge> n")
      case True
      with False Questions v assms show ?thesis
        by (intro returned [of qs valid used' ledger']) (auto simp: Let_def)
    next
      case False2: False
      with False Questions v assms show ?thesis
        by (intro repeated [of qs valid used' ledger']) (auto simp: Let_def)
    qed
  qed
qed

text \<open>
  What the retry loop adds to the ledger and what it returns: the questions returned
  are the cached ones followed by questions accepted in the last attempt.
\<close>

lemma retry_accepts:
  assumes "retryLoop cfg r k attempt n cached needed gm s = (res, gm', s')"
  shows "\<exists>accepted. globalUsedQuestions s' = globalUsedQuestions s @ accepted
     \<and> spread (compareTwoStrings cfg) (globalUsedQuestions s) accepted
     \<and> (\<forall>qs. res = Some qs \<longrightarrow>
          (\<exists>valid. qs = take n (cached @ take needed valid) \<and> distinct valid
             \<and> set valid \<subseteq> set accepted))"
  using assms
proof (induction k arbitrary: attempt gm s)
  case 0
  then show ?case by simp
next
  case (Suc k)
  from Suc.prems show ?case
  proof (cases rule: retryLoop_pass)
    case skipped
    from Suc.IH [OF skipped] show ?thesis by simp
  next
    case (returned newQuestions valid used' ledger')
    from validate_spread [OF returned(1)]
    have l: "ledger' = globalUsedQuestions s @ valid"
      and sp: "spread (compareTwoStrings cfg) (globalUsedQuestions s) valid" by auto
    have dv: "distinct valid" using spread_distinct [OF sp] by simp
    have "\<forall>qs. res = Some qs \<longrightarrow>
          (\<exists>valid'. qs = take n (cached @ take needed valid') \<and> distinct valid'
             \<and> set valid' \<subseteq> set valid)"
      using returned(3) dv by blast
    moreover have "globalUsedQuestions s' = globalUsedQuestions s @ valid"
      using returned(5) l by simp
    ultimately show ?thesis using sp by blast
  next
    case (repeated newQuestions valid used' ledger')
    from validate_spread [OF repeated(1)]
    have l: "ledger' = globalUsedQuestions s @ valid"
      and sp: "spread (compareTwoStrings cfg) (globalUsedQuestions s) valid" by auto
    from Suc.IH [OF repeated(3)] obtain acc where
      a: "globalUsedQuestions s' = ledger' @ acc"
        "spread (compareTwoStrings cfg) ledger' acc"
        "\<forall>qs. res = Some qs \<longrightarrow>
           (\<exists>valid'. qs = take n (cached @ take needed valid') \<and> distinct valid'
              \<and> set valid' \<subseteq> set acc)"
      by auto
    have "globalUsedQuestions s' = globalUsedQuestions s @ (valid @ acc)"
      using a(1) l by simp
    moreover have "spread (compareTwoStrings cfg) (globalUsedQuestions s) (valid @ acc)"
      using a(2) l sp by (simp add: spread_append)
    moreover have "\<forall>qs. res = Some qs \<longrightarrow>
           (\<exists>valid'. qs = take n (cached @ take needed valid') \<and> distinct valid'
              \<and> set valid' \<subseteq> set (valid @ acc))"
    proof (intro allI impI)
      fix qs assume "res = Some qs"
      with a(3) obtain valid' where "qs = take n (cached @ take needed valid')"
        "distinct valid'" "set valid' \<subseteq> set acc" by blast
      then have "qs = take n (cached @ take needed valid') \<and> distinct valid'
              \<and> set valid' \<subseteq> set (valid @ acc)" by auto
      then show "\<exists>valid'. qs = take n (cached @ take needed valid') \<and> distinct valid'
              \<and> set valid' \<subseteq> set (valid @ acc)" by blast
    qed
    ultimately show ?thesis by blast
  qed
qed

text \<open>
  C6, for the generative path. Whatever the retry loop adds to the ledger is
  \<open>spread\<close>: each accepted question scores at most 0.7 against every string that
  was in the ledger when it was examined, those accepted before it included. The
  questions the loop returns are cached or accepted ones.
\<close>

theorem similarity_filter:
  assumes "retryLoop cfg r k attempt n cached needed gm s = (res, gm', s')"
  shows "\<exists>accepted. globalUsedQuestions s' = globalUsedQuestions s @ accepted
     \<and> spread (compareTwoStrings cfg) (globalUsedQuestions s) accepted
     \<and> (\<forall>qs. res = Some qs \<longrightarrow> set qs \<subseteq> set cached \<union> set accepted)"
proof -
  from retry_accepts [OF assms] obtain accepted where
    a: "globalUsedQuestions s' = globalUsedQuestions s @ accepted"
      "spread (compareTwoStrings cfg) (globalUsedQuestions s) accepted"
      "\<forall>qs. res = Some qs \<longrightarrow>
          (\<exists>valid. qs = take n (cached @ take needed valid) \<and> distinct valid
             \<and> set valid \<subseteq> set accepted)"
    by blast
  have "set qs \<subseteq> set cached \<union> set accepted" if "res = Some qs" for qs
  proof -
    from a(3) that obtain valid where
      q: "qs = take n (cached @ take needed valid)" and v: "set valid \<subseteq> set accepted" by blast
    have "set qs \<subseteq> set (cached @ take needed valid)" unfolding q by (rule set_take_subset)
    also have "\<dots> \<subseteq> set cached \<union> set valid" using set_take_subset [of needed valid] by auto
    finally show ?thesis using v by auto
  qed
  with a(1,2) show ?thesis by blast
qed

text \<open>
  The service answers with the two wedding questions and a third one. The first is
  accepted, the second scores 10/11 against it and is dropped, the third is accepted.
\<close>

theorem similarity_filter_witness:
  "retryLoop diceApiConfig similarRnd maxRetries 1 2 [] 2
      (roomAfter diceApiConfig twoPlayersJoined ''g'') (stateAfter diceApiConfig twoPlayersJoined)
     = (fst similarAttempt, fst (snd similarAttempt), snd (snd similarAttempt))
   \<and> (\<exists>accepted.
         globalUsedQuestions (snd (snd similarAttempt))
           = globalUsedQuestions (stateAfter diceApiConfig twoPlayersJoined) @ accepted
         \<and> spread (compareTwoStrings diceApiConfig)
             (globalUsedQuestions (stateAfter diceApiConfig twoPlayersJoined)) accepted
         \<and> (\<forall>qs. fst similarAttempt = Some qs \<longrightarrow> set qs \<subseteq> set [] \<union> set accepted))
   \<and> globalUsedQuestions (stateAfter diceApiConfig twoPlayersJoined) = []
   \<and> globalUsedQuestions (snd (snd similarAttempt))
       = [''Who is the most likely to cry at a wedding?'',
          ''Who is the most likely to adopt ten cats?'']
   \<and> fst similarAttempt
       = Some [''Who is the most likely to cry at a wedding?'',
               ''Who is the most likely to adopt ten cats?'']
   \<and> diceCoefficient ''Who is the most likely to cry at weddings?''
        ''Who is the most likely to cry at a wedding?'' = 10 / 11"
proof -
  have h: "retryLoop diceApiConfig similarRnd maxRetries 1 2 [] 2
      (roomAfter diceApiConfig twoPlayersJoined ''g'') (stateAfter diceApiConfig twoPlayersJoined)
     = (fst similarAttempt, fst (snd similarAttempt), snd (snd similarAttempt))"
    by (simp add: similarAttempt_def)
  have v1: "globalUsedQuestions (stateAfter diceApiConfig twoPlayersJoined) = []" by code_simp
  have v2: "globalUsedQuestions (snd (snd similarAttempt))
       = [''Who is the most likely to cry at a wedding?'',
          ''Who is the most likely to adopt ten cats?'']" by code_simp
  have v3: "fst similarAttempt
       = Some [''Who is the most likely to cry at a wedding?'',
               ''Who is the most likely to adopt ten cats?'']" by code_simp
  have v4: "diceCoefficient ''Who is the most likely to cry at weddings?''
        ''Who is the most likely to cry at a wedding?'' = 10 / 11" by code_simp
  note t = similarity_filter [OF h]
  from h t v1 v2 v3 v4 show ?thesis by (intro conjI)
qed

text \<open>
  C6 as claimed fails for the seed pool: \<open>selectFromQuestionPool\<close> filters by
  membership only. Started from a pool that holds the two wedding questions, the room
  of A and B gets both, and both are in the ledger, though the second scores 10/11
  against the first.
\<close>

theorem similar_pool_counterexample:
  "globalUsedQuestions (stateAfter similarPoolConfig twoPlayersStarted)
     = [''Who is the most likely to cry at a wedding?'',
        ''Who is the most likely to cry at weddings?'']
   \<and> map_option questionAssignments (roomOf (stateAfter similarPoolConfig twoPlayersStarted) ''g'')
     = Some [(''A'', ''Who is the most likely to cry at a wedding?''),
             (''B'', ''Who is the most likely to cry at weddings?'')]
   \<and> compareTwoStrings similarPoolConfig ''Who is the most likely to cry at weddings?''
        ''Who is the most likely to cry at a wedding?'' > 7 / 10"
  by code_simp

section \<open>No question twice\<close>

text \<open>
  C1. \<open>selectFromQuestionPool\<close> filters the seed pool and the fallback list against
  the ledger, each on its own, and concatenates them; the ledger is written only
  after the selection. With a seed pool that holds a fallback question, and a sort
  that leaves the order as it is, the room of A and B is given that question twice.
\<close>

theorem same_question_twice:
  "fst (selectQuestions overlapConfig exampleRnd ''g'' 2 (stateAfter overlapConfig twoPlayersJoined))
     = [''Who is the most likely to become a famous inventor?'',
        ''Who is the most likely to become a famous inventor?'']
   \<and> map_option questionAssignments (roomOf (stateAfter overlapConfig twoPlayersStarted) ''g'')
     = Some [(''A'', ''Who is the most likely to become a famous inventor?''),
             (''B'', ''Who is the most likely to become a famous inventor?'')]"
  by code_simp

text \<open>
  In a room of seven the sort does not matter: the seed question and the six
  fallback questions are all returned, the fallback question among them twice.
\<close>

lemma duplicate_for_every_order:
  assumes "permuting (shufflePool r)"
  shows "\<not> distinct (fst (selectFromQuestionPool overlapConfig r gid (newGame ''A'') 7 initialServer))"
proof -
  let ?combined = "''Who is the most likely to become a famous inventor?'' # initialFallbackQuestions"
  have l: "length (shufflePool r ?combined) = 7"
    using permuting_length [OF assms, of ?combined] by (simp add: initialFallbackQuestions_def)
  have "fst (selectFromQuestionPool overlapConfig r gid (newGame ''A'') 7 initialServer)
      = take 7 (shufflePool r ?combined)"
    by (simp add: selectFromQuestionPool_def overlapConfig_def newGame_def initialServer_def
        unused_def initialFallbackQuestions_def Let_def)
  also have "\<dots> = shufflePool r ?combined" using l by simp
  finally have e: "fst (selectFromQuestionPool overlapConfig r gid (newGame ''A'') 7 initialServer)
      = shufflePool r ?combined" .
  have "mset (shufflePool r ?combined) = mset ?combined"
    using assms by (simp add: permuting_def)
  then have "distinct (shufflePool r ?combined) = distinct ?combined"
    by (rule mset_eq_imp_distinct_iff)
  moreover have "\<not> distinct ?combined" by (simp add: initialFallbackQuestions_def)
  ultimately show ?thesis using e by simp
qed

lemma drain_fresh:
  "drainCache n cache cached used ledger = (cache', cached', used', ledger')
   \<Longrightarrow> \<exists>acc. cached' = cached @ acc \<and> ledger' = ledger @ acc
          \<and> distinct acc \<and> set acc \<inter> set ledger = {}"
proof (induction n cache cached used ledger rule: drainCache.induct)
  case (1 n cached used ledger)
  then show ?case by simp
next
  case (2 n c cache cached used ledger)
  show ?case
  proof (cases "length cached < n")
    case False
    with "2.prems" show ?thesis by simp
  next
    case True
    show ?thesis
    proof (cases "unused used ledger c")
      case False
      with True "2.prems" "2.IH"(2) show ?thesis by simp
    next
      case u: True
      then have nl: "c \<notin> set ledger" by (simp add: unused_def)
      with True u "2.prems"
      have "drainCache n cache (cached @ [c]) (setAdd c used) (setAdd c ledger)
          = (cache', cached', used', ledger')" by simp
      from "2.IH"(1) [OF True u this] nl obtain acc where
        "cached' = (cached @ [c]) @ acc" "ledger' = (ledger @ [c]) @ acc"
        "distinct acc" "set acc \<inter> set (ledger @ [c]) = {}"
        by (auto simp: setAdd_def)
      with nl have "cached' = cached @ (c # acc) \<and> ledger' = ledger @ (c # acc)
          \<and> distinct (c # acc) \<and> set (c # acc) \<inter> set ledger = {}" by auto
      then show ?thesis by blast
    qed
  qed
qed

lemma retry_fallback:
  "retryLoop cfg r k attempt n cached needed gm s = (res, gm', s')
   \<Longrightarrow> \<forall>i. permuting (shuffleExamples r i)
   \<Longrightarrow> mset (fallbackQuestions s') = mset (fallbackQuestions s)"
proof (induction k arbitrary: attempt gm s)
  case 0
  then show ?case by simp
next
  case (Suc k)
  have p: "mset (shuffleExamples r attempt (fallbackQuestions s)) = mset (fallbackQuestions s)"
    using Suc.prems(2) by (simp add: permuting_def)
  from Suc.prems(1) show ?case
  proof (cases rule: retryLoop_pass)
    case skipped
    from Suc.IH [OF skipped Suc.prems(2)] p show ?thesis by simp
  next
    case (returned newQuestions valid used' ledger')
    with p show ?thesis by simp
  next
    case (repeated newQuestions valid used' ledger')
    from Suc.IH [OF repeated(3) Suc.prems(2)] p show ?thesis by simp
  qed
qed

lemma take_shuffle:
  assumes "permuting f" and "distinct xs"
  shows "distinct (take n (f xs)) \<and> set (take n (f xs)) \<subseteq> set xs"
proof -
  have m: "mset (f xs) = mset xs" using assms(1) by (simp add: permuting_def)
  then have "distinct (f xs)" using assms(2) mset_eq_imp_distinct_iff by blast
  moreover have "set (f xs) = set xs" using m by (rule mset_eq_setD)
  ultimately show ?thesis using set_take_subset [of n "f xs"] by auto
qed

text \<open>
  With a seed pool that shares no string with the fallback list, what
  \<open>selectFromQuestionPool\<close> returns is free of repetitions, was not in the ledger and
  is in the ledger afterwards.
\<close>

lemma pool_fresh:
  assumes sp: "selectFromQuestionPool cfg r gid gm n s = (qs, gm', s', outs)"
    and p: "permuting (shufflePool r)" and dp: "distinct (questionPool cfg)"
    and df: "distinct (fallbackQuestions s)"
    and dj: "set (questionPool cfg) \<inter> set (fallbackQuestions s) = {}"
  shows "distinct qs \<and> set qs \<inter> set (globalUsedQuestions s) = {}
     \<and> set qs \<subseteq> set (globalUsedQuestions s')"
proof -
  let ?ok = "unused (usedQuestions gm) (globalUsedQuestions s)"
  let ?avail = "filter ?ok (questionPool cfg)"
  let ?fb = "filter ?ok (fallbackQuestions s)"
  have d1: "distinct ?avail" using dp by simp
  have d2: "distinct (?avail @ ?fb)" using dp df dj by auto
  have f1: "set ?avail \<inter> set (globalUsedQuestions s) = {}" by (auto simp: unused_def)
  have f2: "set (?avail @ ?fb) \<inter> set (globalUsedQuestions s) = {}" by (auto simp: unused_def)
  have fin: "distinct qs \<and> set qs \<inter> set (globalUsedQuestions s) = {}
     \<and> set qs \<subseteq> set (globalUsedQuestions s')"
    if q: "qs = take n (shufflePool r xs)"
      and l: "globalUsedQuestions s' = addAll qs (globalUsedQuestions s)"
      and d: "distinct xs" and f: "set xs \<inter> set (globalUsedQuestions s) = {}" for xs
  proof -
    from take_shuffle [OF p d, of n] q have "distinct qs" "set qs \<subseteq> set xs" by simp_all
    with f l show ?thesis by auto
  qed
  show ?thesis
  proof (cases "length ?avail < n")
    case False
    with sp have "qs = take n (shufflePool r ?avail)"
      "globalUsedQuestions s' = addAll qs (globalUsedQuestions s)"
      by (auto simp: selectFromQuestionPool_def Let_def)
    from fin [OF this d1 f1] show ?thesis .
  next
    case True
    show ?thesis
    proof (cases "length (?avail @ ?fb) < n")
      case short: True
      with True sp have "qs = []" by (simp add: selectFromQuestionPool_def Let_def)
      then show ?thesis by simp
    next
      case False
      with True sp have "qs = take n (shufflePool r (?avail @ ?fb))"
        "globalUsedQuestions s' = addAll qs (globalUsedQuestions s)"
        by (auto simp: selectFromQuestionPool_def Let_def)
      from fin [OF this d2 f2] show ?thesis .
    qed
  qed
qed

text \<open>The five ways through \<open>selectQuestions\<close>.\<close>

lemma selectQuestions_cases:
  assumes "selectQuestions cfg r gid n s = (qs, s', outs)"
  obtains
    (noGame) "map_of (games s) gid = None" "qs = []" "s' = s" "outs = []"
  | (noKey) gm gm0 s0 where "map_of (games s) gid = Some gm"
      "selectFromQuestionPool cfg r gid gm n s = (qs, gm0, s0, outs)"
      "s' = s0\<lparr>games := AList.update gid gm0 (games s0)\<rparr>"
  | (fromCache) gm cache1 cached used1 ledger1 where "map_of (games s) gid = Some gm"
      "drainCache n (questionCache s) [] (usedQuestions gm) (globalUsedQuestions s)
         = (cache1, cached, used1, ledger1)"
      "qs = take n cached" "outs = []"
      "s' = s\<lparr>questionCache := cache1, globalUsedQuestions := ledger1,
              games := AList.update gid (gm\<lparr>usedQuestions := used1\<rparr>) (games s)\<rparr>"
  | (generated) gm cache1 cached used1 ledger1 gm2 s2 where "map_of (games s) gid = Some gm"
      "drainCache n (questionCache s) [] (usedQuestions gm) (globalUsedQuestions s)
         = (cache1, cached, used1, ledger1)"
      "retryLoop cfg r maxRetries 1 n cached (n - length cached) (gm\<lparr>usedQuestions := used1\<rparr>)
         (s\<lparr>questionCache := cache1, globalUsedQuestions := ledger1\<rparr>) = (Some qs, gm2, s2)"
      "outs = []" "s' = s2\<lparr>games := AList.update gid gm2 (games s2)\<rparr>"
  | (fellBack) gm cache1 cached used1 ledger1 gm2 s2 gm0 s0 where
      "map_of (games s) gid = Some gm"
      "drainCache n (questionCache s) [] (usedQuestions gm) (globalUsedQuestions s)
         = (cache1, cached, used1, ledger1)"
      "retryLoop cfg r maxRetries 1 n cached (n - length cached) (gm\<lparr>usedQuestions := used1\<rparr>)
         (s\<lparr>questionCache := cache1, globalUsedQuestions := ledger1\<rparr>) = (None, gm2, s2)"
      "selectFromQuestionPool cfg r gid gm2 n s2 = (qs, gm0, s0, outs)"
      "s' = s0\<lparr>games := AList.update gid gm0 (games s0)\<rparr>"
proof (cases "map_of (games s) gid")
  case None
  with assms show ?thesis by (intro noGame) (simp_all add: selectQuestions_def)
next
  case (Some gm)
  show ?thesis
  proof (cases "hasApiKey cfg")
    case False
    obtain qs0 gm0 s0 outs0 where
      p: "selectFromQuestionPool cfg r gid gm n s = (qs0, gm0, s0, outs0)"
      by (cases "selectFromQuestionPool cfg r gid gm n s") auto
    with assms Some False show ?thesis
      by (intro noKey [of gm gm0 s0]) (simp_all add: selectQuestions_def)
  next
    case True
    obtain cache1 cached used1 ledger1 where
      d: "drainCache n (questionCache s) [] (usedQuestions gm) (globalUsedQuestions s)
            = (cache1, cached, used1, ledger1)"
      by (cases "drainCache n (questionCache s) [] (usedQuestions gm) (globalUsedQuestions s)")
         auto
    show ?thesis
    proof (cases "length cached \<ge> n")
      case enough: True
      with assms Some True d show ?thesis
        by (intro fromCache [of gm cache1 cached used1 ledger1])
           (simp_all add: selectQuestions_def)
    next
      case False
      obtain res gm2 s2 where
        rl: "retryLoop cfg r maxRetries 1 n cached (n - length cached)
               (gm\<lparr>usedQuestions := used1\<rparr>)
               (s\<lparr>questionCache := cache1, globalUsedQuestions := ledger1\<rparr>) = (res, gm2, s2)"
        by (cases "retryLoop cfg r maxRetries 1 n cached (n - length cached)
               (gm\<lparr>usedQuestions := used1\<rparr>)
               (s\<lparr>questionCache := cache1, globalUsedQuestions := ledger1\<rparr>)") auto
      show ?thesis
      proof (cases res)
        case (Some qs1)
        with assms \<open>map_of (games s) gid = Some gm\<close> True d False rl show ?thesis
          by (intro generated [of gm cache1 cached used1 ledger1 gm2 s2])
             (simp_all add: selectQuestions_def)
      next
        case None
        obtain qs0 gm0 s0 outs0 where
          p: "selectFromQuestionPool cfg r gid gm2 n s2 = (qs0, gm0, s0, outs0)"
          by (cases "selectFromQuestionPool cfg r gid gm2 n s2") auto
        with assms \<open>map_of (games s) gid = Some gm\<close> True d False rl None show ?thesis
          by (intro fellBack [of gm cache1 cached used1 ledger1 gm2 s2 gm0 s0])
             (simp_all add: selectQuestions_def)
      qed
    qed
  qed
qed

lemma select_fallback:
  assumes sq: "selectQuestions cfg r gid n s = (qs, s', outs)" and v: "validRnd r"
  shows "mset (fallbackQuestions s') = mset (fallbackQuestions s)"
proof -
  have pe: "\<forall>i. permuting (shuffleExamples r i)" using v by (simp add: validRnd_def)
  from sq show ?thesis
  proof (cases rule: selectQuestions_cases)
    case noGame
    then show ?thesis by simp
  next
    case (noKey gm gm0 s0)
    with pool_frame [OF noKey(2)] show ?thesis by simp
  next
    case (fromCache gm cache1 cached used1 ledger1)
    then show ?thesis by simp
  next
    case (generated gm cache1 cached used1 ledger1 gm2 s2)
    with retry_fallback [OF generated(3) pe] show ?thesis by simp
  next
    case (fellBack gm cache1 cached used1 ledger1 gm2 s2 gm0 s0)
    with retry_fallback [OF fellBack(3) pe] pool_frame [OF fellBack(4)] show ?thesis by simp
  qed
qed

text \<open>
  The same for \<open>selectQuestions\<close>, on either path: the questions returned are free of
  repetitions, none of them was in the ledger before the call, all of them are in
  the ledger after it.
\<close>

lemma select_fresh:
  assumes sq: "selectQuestions cfg r gid n s = (qs, s', outs)" and v: "validRnd r"
    and dp: "distinct (questionPool cfg)" and df: "distinct (fallbackQuestions s)"
    and dj: "set (questionPool cfg) \<inter> set (fallbackQuestions s) = {}"
  shows "distinct qs \<and> set qs \<inter> set (globalUsedQuestions s) = {}
     \<and> set qs \<subseteq> set (globalUsedQuestions s')"
proof -
  have p: "permuting (shufflePool r)" and pe: "\<forall>i. permuting (shuffleExamples r i)"
    using v by (simp_all add: validRnd_def)
  from sq show ?thesis
  proof (cases rule: selectQuestions_cases)
    case noGame
    then show ?thesis by simp
  next
    case (noKey gm gm0 s0)
    from pool_fresh [OF noKey(2) p dp df dj] noKey(3) show ?thesis by simp
  next
    case (fromCache gm cache1 cached used1 ledger1)
    from drain_fresh [OF fromCache(2)] obtain acc where
      a: "cached = acc" "ledger1 = globalUsedQuestions s @ acc" "distinct acc"
        "set acc \<inter> set (globalUsedQuestions s) = {}" by auto
    have "set (take n cached) \<subseteq> set cached" by (rule set_take_subset)
    with a fromCache(3,5) show ?thesis by auto
  next
    case (generated gm cache1 cached used1 ledger1 gm2 s2)
    from drain_fresh [OF generated(2)] obtain acc where
      a: "cached = acc" "ledger1 = globalUsedQuestions s @ acc" "distinct acc"
        "set acc \<inter> set (globalUsedQuestions s) = {}" by auto
    from retry_accepts [OF generated(3)] obtain accepted valid where
      b: "globalUsedQuestions s2 = ledger1 @ accepted"
        "spread (compareTwoStrings cfg) ledger1 accepted"
        "qs = take n (cached @ take (n - length cached) valid)" "distinct valid"
        "set valid \<subseteq> set accepted"
      by auto
    from spread_distinct [OF b(2)] have c: "set accepted \<inter> set ledger1 = {}" by simp
    have tv: "set (take (n - length cached) valid) \<subseteq> set valid" by (rule set_take_subset)
    have "distinct (cached @ take (n - length cached) valid)"
      using a b(4,5) c tv by auto
    then have "distinct qs" unfolding b(3) by (rule distinct_take)
    moreover have "set qs \<subseteq> set cached \<union> set valid"
      unfolding b(3) using set_take_subset [of n "cached @ take (n - length cached) valid"] tv
      by auto
    ultimately show ?thesis using a b(1,5) c generated(5) by auto
  next
    case (fellBack gm cache1 cached used1 ledger1 gm2 s2 gm0 s0)
    from drain_frame [OF fellBack(2)]
    have l1: "set (globalUsedQuestions s) \<subseteq> set ledger1" by simp
    from retry_frame [OF fellBack(3)]
    have l2: "set ledger1 \<subseteq> set (globalUsedQuestions s2)" by simp
    from retry_fallback [OF fellBack(3) pe]
    have m: "mset (fallbackQuestions s2) = mset (fallbackQuestions s)" by simp
    have df2: "distinct (fallbackQuestions s2)"
      using df mset_eq_imp_distinct_iff [OF m] by simp
    have dj2: "set (questionPool cfg) \<inter> set (fallbackQuestions s2) = {}"
      using dj mset_eq_setD [OF m] by simp
    from pool_fresh [OF fellBack(4) p dp df2 dj2] l1 l2 fellBack(5) show ?thesis by auto
  qed
qed

text \<open>
  No handler takes a string out of the ledger, and the fallback list is only ever
  reordered.
\<close>

lemma assign_supply:
  assumes "assignQuestions cfg r gid s = Some (ok, s', outs)" and "validRnd r"
  shows "set (globalUsedQuestions s) \<subseteq> set (globalUsedQuestions s')
     \<and> mset (fallbackQuestions s') = mset (fallbackQuestions s)"
proof -
  from assms(1) obtain gm where gm: "map_of (games s) gid = Some gm"
    by (auto simp: assignQuestions_def split: option.splits)
  obtain qs s1 outs1 where
    sq: "selectQuestions cfg r gid (length (players gm)) s = (qs, s1, outs1)"
    by (cases "selectQuestions cfg r gid (length (players gm)) s") auto
  from assms(1) gm sq have "fallbackQuestions s' = fallbackQuestions s1"
    by (auto simp: assignQuestions_def Let_def split: if_splits option.splits)
  with select_fallback [OF sq assms(2)] assign_frame(1) [OF assms(1) gm] show ?thesis by simp
qed

lemma startNewRound_supply:
  assumes "startNewRound cfg r gid s = Some (s', outs)" and "validRnd r"
  shows "set (globalUsedQuestions s) \<subseteq> set (globalUsedQuestions s')
     \<and> mset (fallbackQuestions s') = mset (fallbackQuestions s)"
proof -
  from assms(1) obtain ok s1 outs1 where
    a: "assignQuestions cfg r gid s = Some (ok, s1, outs1)"
    and e: "globalUsedQuestions s' = globalUsedQuestions s1"
      "fallbackQuestions s' = fallbackQuestions s1"
    by (auto simp: startNewRound_def Let_def split: option.splits if_splits)
  from assign_supply [OF a assms(2)] e show ?thesis by simp
qed

lemma setNextReveal_supply:
  assumes "setNextReveal cfg r gid s = Some (s', outs)" and "validRnd r"
  shows "set (globalUsedQuestions s) \<subseteq> set (globalUsedQuestions s')
     \<and> mset (fallbackQuestions s') = mset (fallbackQuestions s)"
proof -
  from assms(1) consider
      (round) "startNewRound cfg r gid s = Some (s', outs)"
    | (reveal) "globalUsedQuestions s' = globalUsedQuestions s"
        "fallbackQuestions s' = fallbackQuestions s"
    by (auto simp: setNextReveal_def Let_def split: option.splits if_splits)
  then show ?thesis
  proof cases
    case round
    from startNewRound_supply [OF round assms(2)] show ?thesis .
  next
    case reveal
    then show ?thesis by simp
  qed
qed

lemma startGame_supply:
  assumes "startGame cfg r s me gid = Some (s', outs)" and "validRnd r"
  shows "set (globalUsedQuestions s) \<subseteq> set (globalUsedQuestions s')
     \<and> mset (fallbackQuestions s') = mset (fallbackQuestions s)"
proof -
  from assms(1) consider
      (same) "s' = s"
    | (assigned) ok s1 outs1 where "assignQuestions cfg r gid s = Some (ok, s1, outs1)"
        "globalUsedQuestions s' = globalUsedQuestions s1"
        "fallbackQuestions s' = fallbackQuestions s1"
    by (auto simp: startGame_def Let_def split: option.splits if_splits)
  then show ?thesis
  proof cases
    case same
    then show ?thesis by simp
  next
    case assigned
    from assign_supply [OF assigned(1) assms(2)] assigned(2,3) show ?thesis by simp
  qed
qed

lemma submitRanking_supply:
  assumes "submitRanking cfg r s me gid ranking = Some (s', outs)" and "validRnd r"
  shows "set (globalUsedQuestions s) \<subseteq> set (globalUsedQuestions s')
     \<and> mset (fallbackQuestions s') = mset (fallbackQuestions s)"
proof -
  from assms(1) consider
      (same) "globalUsedQuestions s' = globalUsedQuestions s"
        "fallbackQuestions s' = fallbackQuestions s"
    | (onward) g outs2 where
        "setNextReveal cfg r gid (s\<lparr>games := g\<rparr>) = Some (s', outs2)"
    by (auto simp: submitRanking_def Let_def split: option.splits if_splits)
  then show ?thesis
  proof cases
    case same
    then show ?thesis by simp
  next
    case onward
    from setNextReveal_supply [OF onward assms(2)] show ?thesis by simp
  qed
qed

lemma nextReveal_supply:
  assumes "nextReveal cfg r s me gid = Some (s', outs)" and "validRnd r"
  shows "set (globalUsedQuestions s) \<subseteq> set (globalUsedQuestions s')
     \<and> mset (fallbackQuestions s') = mset (fallbackQuestions s)"
proof -
  from assms(1) consider
      (same) "s' = s"
    | (onward) g where "setNextReveal cfg r gid (s\<lparr>games := g\<rparr>) = Some (s', outs)"
    by (auto simp: nextReveal_def Let_def split: option.splits if_splits)
  then show ?thesis
  proof cases
    case same
    then show ?thesis by simp
  next
    case onward
    from setNextReveal_supply [OF onward assms(2)] show ?thesis by simp
  qed
qed

lemma step_supply:
  assumes "step cfg r s ev = Some (s', outs)" and "validRnd r"
  shows "set (globalUsedQuestions s) \<subseteq> set (globalUsedQuestions s')
     \<and> mset (fallbackQuestions s') = mset (fallbackQuestions s)"
proof (cases ev)
  case (CreateGame playerName gameId)
  with assms show ?thesis by (auto simp: createGame_def)
next
  case (JoinGame gameId playerName)
  with assms show ?thesis
    by (auto simp: joinGame_def Let_def split: lookup.splits if_splits)
next
  case (StartGame me gameId)
  with assms startGame_supply [of cfg r s me gameId s' outs] show ?thesis by simp
next
  case (SubmitRanking me gameId ranking)
  with assms submitRanking_supply [of cfg r s me gameId ranking s' outs] show ?thesis by simp
next
  case (SubmitGuess me gameId guess)
  with assms show ?thesis
    by (auto simp: submitGuess_def Let_def split: option.splits if_splits)
next
  case (NextReveal me gameId)
  with assms nextReveal_supply [of cfg r s me gameId s' outs] show ?thesis by simp
next
  case (Disconnect me)
  with assms show ?thesis by (auto simp: disconnect_def)
qed

lemma reachable_fallback:
  "reachable cfg s \<Longrightarrow> mset (fallbackQuestions s) = mset initialFallbackQuestions"
proof (induction rule: reachable.induct)
  case reachable_init
  show ?case by (simp add: initialServer_def)
next
  case (reachable_step s r ev s' outs)
  from step_supply [OF reachable_step(3,2)] reachable_step(4) show ?case by simp
qed

text \<open>
  What holds instead. When the seed pool shares no string with the fallback list, the
  questions that \<open>selectQuestions\<close> returns in a reachable state are free of
  repetitions, none of them is in the ledger, and all of them are in the ledger after
  the call; and no later handler run takes a string out of the ledger
  (\<open>step_supply\<close>). So a string returned once is returned by no later call.
\<close>

lemma questions_fresh:
  assumes "reachable cfg s" and "validRnd r" and "distinct (questionPool cfg)"
    and "set (questionPool cfg) \<inter> set initialFallbackQuestions = {}"
    and "selectQuestions cfg r gid n s = (qs, s', outs)"
  shows "distinct qs \<and> set qs \<inter> set (globalUsedQuestions s) = {}
     \<and> set qs \<subseteq> set (globalUsedQuestions s')"
proof -
  note m = reachable_fallback [OF assms(1)]
  have df: "distinct (fallbackQuestions s)"
    using mset_eq_imp_distinct_iff [OF m] by (simp add: initialFallbackQuestions_def)
  have dj: "set (questionPool cfg) \<inter> set (fallbackQuestions s) = {}"
    using assms(4) mset_eq_setD [OF m] by simp
  from select_fresh [OF assms(5,2,3) df dj] show ?thesis .
qed

section \<open>The supply runs out\<close>

lemma select_split:
  assumes "map_of (games s) gid = Some gm" and "generativePath cfg r n gm s = (res, gm2, s2)"
  shows "selectQuestions cfg r gid n s =
     (case res of
        Some qs \<Rightarrow> (qs, s2\<lparr>games := AList.update gid gm2 (games s2)\<rparr>, [])
      | None \<Rightarrow>
         (case selectFromQuestionPool cfg r gid gm2 n s2 of
            (qs, gm', s', outs) \<Rightarrow> (qs, s'\<lparr>games := AList.update gid gm' (games s')\<rparr>, outs)))"
proof (cases "hasApiKey cfg")
  case False
  with assms show ?thesis by (auto simp: selectQuestions_def generativePath_def)
next
  case True
  obtain cache1 cached used1 ledger1 where
    d: "drainCache n (questionCache s) [] (usedQuestions gm) (globalUsedQuestions s)
          = (cache1, cached, used1, ledger1)"
    by (cases "drainCache n (questionCache s) [] (usedQuestions gm) (globalUsedQuestions s)")
       auto
  show ?thesis
  proof (cases "length cached \<ge> n")
    case enough: True
    with assms True d show ?thesis by (auto simp: selectQuestions_def generativePath_def)
  next
    case False
    with assms True d show ?thesis
      by (cases res) (simp_all add: selectQuestions_def generativePath_def)
  qed
qed

lemma generative_frame:
  assumes "generativePath cfg r n gm s = (res, gm2, s2)"
  shows "games s2 = games s" and "\<exists>u. gm2 = gm\<lparr>usedQuestions := u\<rparr>"
    and "\<forall>i. permuting (shuffleExamples r i)
         \<Longrightarrow> mset (fallbackQuestions s2) = mset (fallbackQuestions s)"
    and "res = Some qs \<Longrightarrow> length qs = n"
    and "\<not> hasApiKey cfg \<Longrightarrow> res = None \<and> gm2 = gm \<and> s2 = s"
proof -
  have "games s2 = games s \<and> (\<exists>u. gm2 = gm\<lparr>usedQuestions := u\<rparr>)
     \<and> ((\<forall>i. permuting (shuffleExamples r i))
          \<longrightarrow> mset (fallbackQuestions s2) = mset (fallbackQuestions s))
     \<and> (res = Some qs \<longrightarrow> length qs = n)
     \<and> (\<not> hasApiKey cfg \<longrightarrow> res = None \<and> gm2 = gm \<and> s2 = s)"
  proof (cases "hasApiKey cfg")
    case False
    with assms have "res = None" "gm2 = gm" "s2 = s" by (simp_all add: generativePath_def)
    then show ?thesis by (cases gm) simp
  next
    case True
    obtain cache1 cached used1 ledger1 where
      d: "drainCache n (questionCache s) [] (usedQuestions gm) (globalUsedQuestions s)
            = (cache1, cached, used1, ledger1)"
      by (cases "drainCache n (questionCache s) [] (usedQuestions gm) (globalUsedQuestions s)")
         auto
    let ?gm1 = "gm\<lparr>usedQuestions := used1\<rparr>"
    let ?s1 = "s\<lparr>questionCache := cache1, globalUsedQuestions := ledger1\<rparr>"
    show ?thesis
    proof (cases "length cached \<ge> n")
      case enough: True
      with assms True d have "res = Some (take n cached)" "gm2 = ?gm1" "s2 = ?s1"
        by (simp_all add: generativePath_def)
      with enough True show ?thesis by auto
    next
      case False
      with assms True d have
        rl: "retryLoop cfg r maxRetries 1 n cached (n - length cached) ?gm1 ?s1 = (res, gm2, s2)"
        by (simp add: generativePath_def)
      from retry_frame [OF rl] have "games s2 = games s" and "\<exists>u. gm2 = gm\<lparr>usedQuestions := u\<rparr>"
        by auto
      moreover have "mset (fallbackQuestions s2) = mset (fallbackQuestions s)"
        if "\<forall>i. permuting (shuffleExamples r i)"
        using retry_fallback [OF rl that] by simp
      moreover have "length qs = n" if "res = Some qs"
        using retry_result rl that by blast
      ultimately show ?thesis using True by blast
    qed
  qed
  then show "games s2 = games s" and "\<exists>u. gm2 = gm\<lparr>usedQuestions := u\<rparr>"
    and "\<forall>i. permuting (shuffleExamples r i)
         \<Longrightarrow> mset (fallbackQuestions s2) = mset (fallbackQuestions s)"
    and "res = Some qs \<Longrightarrow> length qs = n"
    and "\<not> hasApiKey cfg \<Longrightarrow> res = None \<and> gm2 = gm \<and> s2 = s"
    by blast+
qed

lemma pool_exhausted:
  "unusedCount cfg gm s < n \<Longrightarrow>
   selectFromQuestionPool cfg r gid gm n s
     = ([], gm, s, [ToRoom gid (GameState (gm\<lparr>noMoreQuestions := True\<rparr>) None)])"
  by (simp add: selectFromQuestionPool_def unusedCount_def Let_def)

lemma pool_supplies:
  assumes "permuting (shufflePool r)" and "n \<le> unusedCount cfg gm s"
  shows "length (fst (selectFromQuestionPool cfg r gid gm n s)) = n
     \<and> snd (snd (snd (selectFromQuestionPool cfg r gid gm n s))) = []"
  using assms(2) permuting_length [OF assms(1)]
  by (auto simp: selectFromQuestionPool_def unusedCount_def Let_def)

lemma unusedCount_card:
  assumes "distinct (questionPool cfg)" and "distinct fb"
    and "set (questionPool cfg) \<inter> set fb = {}"
    and "mset (fallbackQuestions s) = mset fb"
  shows "unusedCount cfg gm s
     = card {q \<in> set (questionPool cfg) \<union> set fb.
               unused (usedQuestions gm) (globalUsedQuestions s) q}"
proof -
  let ?P = "unused (usedQuestions gm) (globalUsedQuestions s)"
  have a: "length (filter ?P (questionPool cfg)) = card {q \<in> set (questionPool cfg). ?P q}"
    using assms(1) by (metis distinct_card distinct_filter set_filter)
  have "mset (filter ?P (fallbackQuestions s)) = mset (filter ?P fb)"
    using assms(4) by (simp only: mset_filter)
  then have "length (filter ?P (fallbackQuestions s)) = length (filter ?P fb)"
    by (rule mset_eq_length)
  also have "\<dots> = card {q \<in> set fb. ?P q}"
    using assms(2) by (metis distinct_card distinct_filter set_filter)
  finally have b: "length (filter ?P (fallbackQuestions s)) = card {q \<in> set fb. ?P q}" .
  have "{q \<in> set (questionPool cfg) \<union> set fb. ?P q}
      = {q \<in> set (questionPool cfg). ?P q} \<union> {q \<in> set fb. ?P q}" by blast
  moreover have "{q \<in> set (questionPool cfg). ?P q} \<inter> {q \<in> set fb. ?P q} = {}"
    using assms(3) by blast
  ultimately have "card {q \<in> set (questionPool cfg) \<union> set fb. ?P q}
      = card {q \<in> set (questionPool cfg). ?P q} + card {q \<in> set fb. ?P q}"
    by (simp add: card_Un_disjoint)
  with a b show ?thesis by (simp add: unusedCount_def)
qed

lemma distinct_initialFallbackQuestions: "distinct initialFallbackQuestions"
  by code_simp

text \<open>
  C4, as the code has it. Let the part of \<open>selectQuestions\<close> before the seed pool end
  with the room \<open>gm2\<close> and the server \<open>s2\<close>; without an API key these are the room and
  the server as they were. \<open>selectQuestions\<close> returns fewer questions than the room has
  players exactly when that part has not returned and the unused entries of the seed
  pool and of the fallback list, each list counted by itself, are fewer than the
  players; in every other case it returns one question for each player and emits
  nothing. When it fails it returns the empty list and has broadcast a copy of the
  room that carries \<open>noMoreQuestions: true\<close>; \<open>assignQuestions\<close> then fails, \<open>startGame\<close>
  answers the owner with an error and \<open>startNewRound\<close> broadcasts the flagged copy
  again. The room itself is as before but for its used-set: its phase, its
  assignments and its rankings are unchanged, and its own field \<open>noMoreQuestions\<close> is
  still false. When the seed pool has no duplicate and shares no string with the
  fallback list, the count is the number of unused strings of the two lists.
\<close>

theorem supply_exhaustion:
  assumes "reachable cfg s" and "validRnd r" and "roomOf s gameId = Some gm"
    and "generativePath cfg r (length (players gm)) gm s = (res, gm2, s2)"
  shows "((length (fst (selectQuestions cfg r gameId (length (players gm)) s))
             < length (players gm))
          = (res = None \<and> unusedCount cfg gm2 s2 < length (players gm)))
     \<and> (\<not> (res = None \<and> unusedCount cfg gm2 s2 < length (players gm)) \<longrightarrow>
          length (fst (selectQuestions cfg r gameId (length (players gm)) s))
            = length (players gm)
          \<and> snd (snd (selectQuestions cfg r gameId (length (players gm)) s)) = [])
     \<and> (res = None \<and> unusedCount cfg gm2 s2 < length (players gm) \<longrightarrow>
          selectQuestions cfg r gameId (length (players gm)) s
            = ([], s2\<lparr>games := AList.update gameId gm2 (games s2)\<rparr>,
               [ToRoom gameId (GameState (gm2\<lparr>noMoreQuestions := True\<rparr>) None)])
          \<and> assignQuestions cfg r gameId s
            = Some (False, s2\<lparr>games := AList.update gameId gm2 (games s2)\<rparr>,
                    [ToRoom gameId (GameState (gm2\<lparr>noMoreQuestions := True\<rparr>) None)])
          \<and> (Some (owner gm) = me \<longrightarrow>
               startGame cfg r s me gameId
                 = Some (s2\<lparr>games := AList.update gameId gm2 (games s2)\<rparr>,
                         [ToRoom gameId (GameState (gm2\<lparr>noMoreQuestions := True\<rparr>) None),
                          ToSocket (Error ''No more unique questions available.'')]))
          \<and> startNewRound cfg r gameId s
               = Some (s2\<lparr>games := AList.update gameId gm2 (games s2)\<rparr>,
                       [ToRoom gameId (GameState (gm2\<lparr>noMoreQuestions := True\<rparr>) None),
                        ToRoom gameId (GameState (gm2\<lparr>noMoreQuestions := True\<rparr>) None)])
          \<and> roomOf (s2\<lparr>games := AList.update gameId gm2 (games s2)\<rparr>) gameId = Some gm2
          \<and> noMoreQuestions gm2 = False)
     \<and> (\<exists>u. gm2 = gm\<lparr>usedQuestions := u\<rparr>)
     \<and> (\<not> hasApiKey cfg \<longrightarrow> res = None \<and> gm2 = gm \<and> s2 = s)
     \<and> (distinct (questionPool cfg) \<and> set (questionPool cfg) \<inter> set initialFallbackQuestions = {}
          \<longrightarrow> unusedCount cfg gm2 s2
                = card {q \<in> set (questionPool cfg) \<union> set initialFallbackQuestions.
                          unused (usedQuestions gm2) (globalUsedQuestions s2) q})"
proof -
  let ?n = "length (players gm)"
  let ?sel = "selectQuestions cfg r gameId ?n s"
  let ?short = "res = None \<and> unusedCount cfg gm2 s2 < ?n"
  let ?s1 = "s2\<lparr>games := AList.update gameId gm2 (games s2)\<rparr>"
  let ?b = "ToRoom gameId (GameState (gm2\<lparr>noMoreQuestions := True\<rparr>) None)"
  have gm: "map_of (games s) gameId = Some gm" using assms(3) by (simp add: roomOf_def)
  have p: "permuting (shufflePool r)" and pe: "\<forall>i. permuting (shuffleExamples r i)"
    using assms(2) by (simp_all add: validRnd_def)
  note sp = select_split [OF gm assms(4)]
  note gf = generative_frame [OF assms(4)]
  have nm: "noMoreQuestions gm = False"
    using reachable_room [OF assms(1,3)] by (simp add: roomInv_def)
  from gf(2) nm have nm2: "noMoreQuestions gm2 = False" by auto
  have r1: "roomOf ?s1 gameId = Some gm2" by (simp add: roomOf_def update_conv')
  have ok: "length (fst ?sel) = ?n \<and> snd (snd ?sel) = []" if "\<not> ?short"
  proof (cases res)
    case (Some qs)
    with sp gf(4) [OF Some] show ?thesis by simp
  next
    case None
    with that have "?n \<le> unusedCount cfg gm2 s2" by simp
    from pool_supplies [OF p this, of gameId] sp None show ?thesis
      by (simp add: split_beta)
  qed
  have fail: "?sel = ([], ?s1, [?b])" if "?short"
    using sp that pool_exhausted [of cfg gm2 s2 ?n r gameId] by simp
  have pos: "players gm \<noteq> []" if "?short"
  proof -
    from that have "unusedCount cfg gm2 s2 < ?n" by (rule conjunct2)
    then have "0 < ?n" by (rule gr_implies_not_zero [THEN neq0_conv [THEN iffD1]])
    then show ?thesis by simp
  qed
  have iff: "(length (fst ?sel) < ?n) = ?short"
  proof (cases "?short")
    case True
    with fail have "fst ?sel = []" by simp
    with True pos [OF True] show ?thesis by simp
  next
    case False
    with ok show ?thesis by simp
  qed
  have aq: "assignQuestions cfg r gameId s = Some (False, ?s1, [?b])" if "?short"
    using gm fail [OF that] pos [OF that] by (simp add: assignQuestions_def)
  have sg: "startGame cfg r s me gameId
      = Some (?s1, [?b, ToSocket (Error ''No more unique questions available.'')])"
    if "?short" and "Some (owner gm) = me"
    using gm aq [OF that(1)] that(2) by (simp add: startGame_def)
  have nr: "startNewRound cfg r gameId s = Some (?s1, [?b, ?b])" if "?short"
    using aq [OF that] by (simp add: startNewRound_def update_conv')
  have fb: "mset (fallbackQuestions s2) = mset initialFallbackQuestions"
    using gf(3) [OF pe] reachable_fallback [OF assms(1)] by simp
  have cd: "unusedCount cfg gm2 s2
                = card {q \<in> set (questionPool cfg) \<union> set initialFallbackQuestions.
                          unused (usedQuestions gm2) (globalUsedQuestions s2) q}"
    if "distinct (questionPool cfg)"
      and "set (questionPool cfg) \<inter> set initialFallbackQuestions = {}"
    by (rule unusedCount_card [OF that(1) distinct_initialFallbackQuestions that(2) fb])
  from iff ok fail aq sg nr r1 nm2 gf(2) gf(5) cd show ?thesis by blast
qed

text \<open>
  After two starts in a room of four, without an API key, two unused questions are
  left. The third start fails: the owner gets the error, the room stays in the
  ranking phase with the assignments of the second start.
\<close>

theorem supply_exhaustion_witness:
  "reachable exampleConfig (stateAfter exampleConfig fourPlayersTwoStarts)
   \<and> validRnd exampleRnd
   \<and> roomOf (stateAfter exampleConfig fourPlayersTwoStarts) ''g''
       = Some (roomAfter exampleConfig fourPlayersTwoStarts ''g'')
   \<and> generativePath exampleConfig exampleRnd
        (length (players (roomAfter exampleConfig fourPlayersTwoStarts ''g'')))
        (roomAfter exampleConfig fourPlayersTwoStarts ''g'')
        (stateAfter exampleConfig fourPlayersTwoStarts)
       = (None, roomAfter exampleConfig fourPlayersTwoStarts ''g'',
          stateAfter exampleConfig fourPlayersTwoStarts)
   \<and> unusedCount exampleConfig (roomAfter exampleConfig fourPlayersTwoStarts ''g'')
        (stateAfter exampleConfig fourPlayersTwoStarts) = 2
   \<and> length (players (roomAfter exampleConfig fourPlayersTwoStarts ''g'')) = 4
   \<and> distinct (questionPool exampleConfig)
   \<and> set (questionPool exampleConfig) \<inter> set initialFallbackQuestions = {}
   \<and> state (roomAfter exampleConfig fourPlayersTwoStarts ''g'') = Ranking
   \<and> owner (roomAfter exampleConfig fourPlayersTwoStarts ''g'') = ''A''
   \<and> length (fst (selectQuestions exampleConfig exampleRnd ''g''
        (length (players (roomAfter exampleConfig fourPlayersTwoStarts ''g'')))
        (stateAfter exampleConfig fourPlayersTwoStarts)))
       < length (players (roomAfter exampleConfig fourPlayersTwoStarts ''g''))
   \<and> startGame exampleConfig exampleRnd (stateAfter exampleConfig fourPlayersTwoStarts)
        (Some ''A'') ''g''
       = Some (stateAfter exampleConfig fourPlayersTwoStarts,
               [ToRoom ''g'' (GameState (roomAfter exampleConfig fourPlayersTwoStarts ''g''
                                          \<lparr>noMoreQuestions := True\<rparr>) None),
                ToSocket (Error ''No more unique questions available.'')])
   \<and> card {q \<in> set (questionPool exampleConfig) \<union> set initialFallbackQuestions.
             unused (usedQuestions (roomAfter exampleConfig fourPlayersTwoStarts ''g''))
               (globalUsedQuestions (stateAfter exampleConfig fourPlayersTwoStarts)) q} = 2"
proof -
  let ?s = "stateAfter exampleConfig fourPlayersTwoStarts"
  let ?gm = "roomAfter exampleConfig fourPlayersTwoStarts ''g''"
  have h3: "roomOf ?s ''g'' = Some ?gm" by code_simp
  have h4: "generativePath exampleConfig exampleRnd (length (players ?gm)) ?gm ?s
      = (None, ?gm, ?s)" by code_simp
  have c2: "unusedCount exampleConfig ?gm ?s = 2" by code_simp
  have n4: "length (players ?gm) = 4" by code_simp
  have d1: "distinct (questionPool exampleConfig)" by code_simp
  have d2: "set (questionPool exampleConfig) \<inter> set initialFallbackQuestions = {}"
    by code_simp
  have v1: "state ?gm = Ranking" and v2: "Some (owner ?gm) = Some ''A''" by code_simp+
  have v3: "?s\<lparr>games := AList.update ''g'' ?gm (games ?s)\<rparr> = ?s" by code_simp
  have short: "(None :: string list option) = None
      \<and> unusedCount exampleConfig ?gm ?s < length (players ?gm)"
    using c2 n4 by simp
  note t = supply_exhaustion [OF reachable_fourPlayersTwoStarts validRnd_exampleRnd h3 h4,
      of "Some ''A''"]
  from t short have lt: "length (fst (selectQuestions exampleConfig exampleRnd ''g''
        (length (players ?gm)) ?s)) < length (players ?gm)" by blast
  from t short v2 have "startGame exampleConfig exampleRnd ?s (Some ''A'') ''g''
      = Some (?s\<lparr>games := AList.update ''g'' ?gm (games ?s)\<rparr>,
              [ToRoom ''g'' (GameState (?gm\<lparr>noMoreQuestions := True\<rparr>) None),
               ToSocket (Error ''No more unique questions available.'')])" by blast
  then have sg: "startGame exampleConfig exampleRnd ?s (Some ''A'') ''g''
      = Some (?s, [ToRoom ''g'' (GameState (?gm\<lparr>noMoreQuestions := True\<rparr>) None),
               ToSocket (Error ''No more unique questions available.'')])"
    by (simp only: v3)
  from t d1 d2 have "unusedCount exampleConfig ?gm ?s
      = card {q \<in> set (questionPool exampleConfig) \<union> set initialFallbackQuestions.
             unused (usedQuestions ?gm) (globalUsedQuestions ?s) q}" by blast
  with c2 have cd: "card {q \<in> set (questionPool exampleConfig) \<union> set initialFallbackQuestions.
             unused (usedQuestions ?gm) (globalUsedQuestions ?s) q} = 2" by simp
  from v2 have v2': "owner ?gm = ''A''" by simp
  from reachable_fourPlayersTwoStarts validRnd_exampleRnd h3 h4 c2 n4 d1 d2 v1 v2' lt sg cd
  show ?thesis by (intro conjI)
qed

text \<open>
  With an API key, when every request to the service fails: the third start in the
  room of four fails in the same way.
\<close>

lemma keyed_supply_exhaustion:
  "generativePath diceApiConfig exampleRnd 4 (roomAfter diceApiConfig fourPlayersTwoStarts ''g'')
        (stateAfter diceApiConfig fourPlayersTwoStarts)
       = (None, roomAfter diceApiConfig fourPlayersTwoStarts ''g'',
          stateAfter diceApiConfig fourPlayersTwoStarts)
   \<and> unusedCount diceApiConfig (roomAfter diceApiConfig fourPlayersTwoStarts ''g'')
        (stateAfter diceApiConfig fourPlayersTwoStarts) = 2
   \<and> players (roomAfter diceApiConfig fourPlayersTwoStarts ''g'') = [''A'', ''B'', ''C'', ''D'']
   \<and> fst (selectQuestions diceApiConfig exampleRnd ''g'' 4
             (stateAfter diceApiConfig fourPlayersTwoStarts)) = []"
  by code_simp

text \<open>
  A string that is in the seed pool and in the fallback list is counted twice: with
  that seed pool of one question and six fallback questions, a room of seven is
  served seven questions.
\<close>

lemma overlap_counted_twice:
  "unusedCount overlapConfig (newGame ''A'') initialServer = 7
   \<and> card (set (questionPool overlapConfig) \<union> set initialFallbackQuestions) = 6"
  by code_simp

text \<open>
  C4 as claimed fails: after the failed third start, the room's own
  \<open>noMoreQuestions\<close> is false; only the broadcast copy carries \<open>true\<close>.
\<close>

theorem noMoreQuestions_not_set_counterexample:
  "map_option
     (\<lambda>(s', outs).
        (map_option (\<lambda>gm. (state gm, noMoreQuestions gm)) (roomOf s' ''g''),
         outs = [ToRoom ''g'' (GameState (roomAfter exampleConfig fourPlayersTwoStarts ''g''
                                           \<lparr>noMoreQuestions := True\<rparr>) None),
                 ToSocket (Error ''No more unique questions available.'')]))
     (startGame exampleConfig exampleRnd (stateAfter exampleConfig fourPlayersTwoStarts)
        (Some ''A'') ''g'')
   = Some (Some (Ranking, False), True)"
  by code_simp

end
